theory Spec2Isabelle
  imports Complex_Main "HOL-Library.Word" "HOL-Library.Multiset"
begin

unbundle bit_operations_syntax

section \<open>The aggregation service of Caliper (services/aggregate/Aggregate.cpp)\<close>

text \<open>
  A shallow embedding of the per-thread aggregation database \<open>AggregateDB\<close>: the
  aggregation kernel, the block allocator, the byte trie, the key builder of
  \<open>process_snapshot\<close>, the flush and the registry of databases.

  Conventions of the embedding.
  \<^item> \<open>size_t\<close>, \<open>uint64_t\<close> and \<open>cali_id_t\<close> are \<open>64 word\<close>, \<open>uint32_t\<close> is
    \<open>32 word\<close>, \<open>unsigned char\<close> is \<open>8 word\<close>; arithmetic wraps as in the source.
  \<^item> A finite \<open>double\<close> is the real number it denotes. Comparisons, \<open>std::min\<close> and
    \<open>std::max\<close> are exact on them; \<open>+\<close> is the exact sum (rounding is not modelled).
  \<^item> A pointer into a block of a \<open>BlockAlloc\<close> is the id it was obtained for: \<open>get\<close>
    returns \<open>m_blocks[id / ENTRIES_PER_BLOCK] + id % ENTRIES_PER_BLOCK\<close>, so distinct ids
    are distinct elements. The null pointer is \<open>None\<close>.
  \<^item> Behaviour the C++ standard leaves undefined (an access outside an array, the use of
    a pointer that is not valid) is a value of \<open>error\<close>; a function that can run into
    it returns \<open>error + 'a\<close>.
\<close>

datatype error =
    OutOfBounds    \<comment> \<open>an array element outside the array is read or written\<close>
  | InvalidPointer \<comment> \<open>a database pointer that does not point to a live database is used\<close>
  | UndefinedShift \<comment> \<open>an \<open>int\<close> is shifted out of its range\<close>
  | DecodeError    \<comment> \<open>a varint of more than 10 bytes\<close>

subsection \<open>Constants\<close>

definition MAX_KEYLEN :: nat where
  "MAX_KEYLEN = 128"

definition SNAP_MAX :: nat where
  "SNAP_MAX = 80"

text \<open>The template parameters of \<open>BlockAlloc\<close>; both instances use the defaults.\<close>

definition MAX_BLOCKS :: nat where
  "MAX_BLOCKS = 2048"

definition ENTRIES_PER_BLOCK :: nat where
  "ENTRIES_PER_BLOCK = 1024"

text \<open>\<open>std::numeric_limits<double>::max()\<close>, the largest finite double, and
  \<open>std::numeric_limits<double>::min()\<close>, the smallest positive normal double.\<close>

definition numeric_limits_double_max :: real where
  "numeric_limits_double_max = 2 ^ 1024 - 2 ^ 971"

definition numeric_limits_double_min :: real where
  "numeric_limits_double_min = 1 / 2 ^ 1022"

subsection \<open>The aggregation kernel\<close>

text \<open>\<open>struct AggregateKernel\<close>. The field \<open>count\<close> is an \<open>int\<close>; it is kept as a
  32-bit word, read with \<open>sint\<close>.\<close>

record AggregateKernel =
  min_k :: real
  max_k :: real
  sum_k :: real
  count_k :: "32 word"

definition AggregateKernel_ctor :: AggregateKernel where
  "AggregateKernel_ctor =
     \<lparr> min_k = numeric_limits_double_max,
       max_k = numeric_limits_double_min,
       sum_k = 0,
       count_k = 0 \<rparr>"

definition add :: "AggregateKernel \<Rightarrow> real \<Rightarrow> AggregateKernel" where
  "add k val =
     k \<lparr> min_k := min (min_k k) val,
         max_k := max (max_k k) val,
         sum_k := sum_k k + val,
         count_k := count_k k + 1 \<rparr>"

text \<open>A sequence of \<open>add\<close> calls on one kernel.\<close>

definition add_all :: "AggregateKernel \<Rightarrow> real list \<Rightarrow> AggregateKernel" where
  "add_all k vals = foldl add k vals"

subsection \<open>The trie node\<close>

text \<open>\<open>struct TrieNode\<close>: \<open>next\<close> is an array of 256 child ids indexed by a key byte.\<close>

record TrieNode =
  next_t :: "8 word \<Rightarrow> 32 word"
  k_id :: "32 word"
  count_t :: "32 word"

definition TrieNode_ctor :: TrieNode where
  "TrieNode_ctor = \<lparr> next_t = (\<lambda>_. 0), k_id = 0xFFFFFFFF, count_t = 0 \<rparr>"

subsection \<open>The block allocator\<close>

text \<open>
  \<open>class BlockAlloc\<close>. \<open>m_blocks\<close> is the array of \<open>MAX_BLOCKS\<close> block pointers: only the
  indices below \<open>MAX_BLOCKS\<close> are elements of it. A block is an array of
  \<open>ENTRIES_PER_BLOCK\<close> elements, a function of the offset.
\<close>

record 'a BlockAlloc =
  m_blocks :: "nat \<Rightarrow> (nat \<Rightarrow> 'a) option"
  m_num_blocks :: "64 word"

text \<open>
  \<open>get(id, alloc)\<close>. \<open>new T[ENTRIES_PER_BLOCK]\<close> default-constructs the elements: \<open>dflt\<close>
  is the default-constructed \<open>T\<close>. The guard of the source is \<open>block > MAX_BLOCKS\<close>, so
  with \<open>block = MAX_BLOCKS\<close> the source goes on to read \<open>m_blocks[MAX_BLOCKS]\<close>, one past
  the last element of the array.
\<close>

definition get :: "'a \<Rightarrow> 'a BlockAlloc \<Rightarrow> nat \<Rightarrow> bool \<Rightarrow> error + (nat option \<times> 'a BlockAlloc)" where
  "get dflt ba ident alloc =
     (let block = ident div ENTRIES_PER_BLOCK in
      if block > MAX_BLOCKS then Inr (None, ba)
      else if block \<ge> MAX_BLOCKS then Inl OutOfBounds
      else
        (case m_blocks ba block of
           None \<Rightarrow>
             if alloc then
               Inr (Some ident,
                    ba \<lparr> m_blocks := (m_blocks ba)(block \<mapsto> (\<lambda>_. dflt)),
                         m_num_blocks := m_num_blocks ba + 1 \<rparr>)
             else Inr (None, ba)
         | Some _ \<Rightarrow> Inr (Some ident, ba)))"

text \<open>\<open>clear()\<close>: all blocks are deleted and the pointers reset.\<close>

definition clear_blocks :: "'a BlockAlloc \<Rightarrow> 'a BlockAlloc" where
  "clear_blocks ba = ba \<lparr> m_blocks := (\<lambda>_. None), m_num_blocks := 0 \<rparr>"

text \<open>Reading and writing the element a pointer returned by \<open>get\<close> points to. The
  block of such a pointer is allocated, and stays so until \<open>clear\<close>; the source
  dereferences no other pointers into a pool.\<close>

definition deref :: "'a BlockAlloc \<Rightarrow> nat \<Rightarrow> 'a" where
  "deref ba p = the (m_blocks ba (p div ENTRIES_PER_BLOCK)) (p mod ENTRIES_PER_BLOCK)"

definition store :: "'a BlockAlloc \<Rightarrow> nat \<Rightarrow> 'a \<Rightarrow> 'a BlockAlloc" where
  "store ba p v =
     ba \<lparr> m_blocks := (m_blocks ba)(p div ENTRIES_PER_BLOCK \<mapsto>
            (the (m_blocks ba (p div ENTRIES_PER_BLOCK)))(p mod ENTRIES_PER_BLOCK := v)) \<rparr>"

subsection \<open>Attributes and nodes of the framework\<close>

text \<open>An \<open>Attribute\<close> handle of the framework: its id and its value type.
  \<open>Attribute::invalid\<close> has the id \<open>CALI_INV_ID\<close>.\<close>

definition CALI_INV_ID :: "64 word" where
  "CALI_INV_ID = 0xFFFFFFFFFFFFFFFF"

datatype cali_attr_type =
  CALI_TYPE_INV | CALI_TYPE_USR | CALI_TYPE_INT | CALI_TYPE_UINT | CALI_TYPE_STRING
  | CALI_TYPE_ADDR | CALI_TYPE_DOUBLE | CALI_TYPE_BOOL | CALI_TYPE_TYPE

record Attribute =
  attr_id :: "64 word"
  attr_type :: cali_attr_type

definition Attribute_invalid :: Attribute where
  "Attribute_invalid = \<lparr> attr_id = CALI_INV_ID, attr_type = CALI_TYPE_INV \<rparr>"

text \<open>A context tree node of the framework: \<open>id()\<close>, \<open>attribute()\<close> and \<open>parent()\<close>.\<close>

datatype node = Node (node_id: "64 word") (attribute: "64 word") (parent: "node option")

subsection \<open>Snapshots and the framework\<close>

text \<open>A \<open>Variant\<close> of the framework, as the two observations the service makes of it:
  the 64-bit word read at \<open>data()\<close> and \<open>to_double()\<close>.\<close>

record Variant =
  data :: "64 word"
  to_double :: real

text \<open>A \<open>SnapshotRecord\<close>: the context tree nodes, and the immediate entries, each the
  attribute id \<open>immediate_attr[i]\<close> with the value \<open>immediate_data[i]\<close>.\<close>

record SnapshotRecord =
  node_entries :: "node list"
  immediate_entries :: "(64 word \<times> Variant) list"

text \<open>The static configuration of the service.\<close>

record StatisticsAttributes =
  min_attr :: Attribute
  max_attr :: Attribute
  sum_attr :: Attribute

record statics =
  s_count_attribute :: Attribute
  s_key_attribute_ids :: "64 word list"
  s_key_attributes :: "Attribute list"
  s_aggr_attribute_names :: "string list"
  s_stats_attributes :: "StatisticsAttributes list"

text \<open>The framework instance \<open>Caliper* c\<close>, as the functions the service calls:
  \<open>is_signal()\<close>, \<open>get_attribute(name)\<close> (\<open>Attribute::invalid\<close> when there is none),
  \<open>make_tree_entry(n, nodelist, root)\<close>, which returns the node for the path of the
  nodes in the list below the root, or null, and \<open>node(id)\<close>.\<close>

record Caliper =
  is_signal :: bool
  get_attribute :: "string \<Rightarrow> Attribute"
  make_tree_entry :: "node option list \<Rightarrow> node \<Rightarrow> node option"
  node_of_id :: "64 word \<Rightarrow> node option"

subsection \<open>The database\<close>

text \<open>A database lives at an address; \<open>m_next\<close> and \<open>m_prev\<close> are pointers to
  databases.\<close>

type_synonym addr = nat

record AggregateDB =
  m_stopped :: bool
  m_retired :: bool
  m_next :: "addr option"
  m_prev :: "addr option"
  m_aggr_attributes :: "Attribute list"
  m_trie :: "TrieNode BlockAlloc"
  m_kernels :: "AggregateKernel BlockAlloc"
  m_aggr_root_node :: node
  m_num_trie_entries :: "64 word"
  m_num_kernel_entries :: "64 word"
  m_num_dropped :: "64 word"
  m_max_keylen :: "64 word"

subsection \<open>find_entry\<close>

text \<open>
  One step of the loop of \<open>find_entry\<close>: the child id of \<open>entry\<close> for the key byte
  \<open>b\<close>. A child id of 0 is replaced by the fresh id \<open>++m_num_trie_entries\<close> (cast to
  \<open>uint32_t\<close>) and stored in the node, whatever \<open>alloc\<close> is: the source does not test
  \<open>alloc\<close> here and only passes it on to \<open>m_trie.get\<close>.
\<close>

definition child_id :: "AggregateDB \<Rightarrow> nat \<Rightarrow> 8 word \<Rightarrow> 32 word \<times> AggregateDB" where
  "child_id db e b =
     (let entry = deref (m_trie db) e;
          ident = next_t entry b
      in if ident = 0 then
           (let n = m_num_trie_entries db + 1;
                ident' = (ucast n :: 32 word)
            in (ident',
                db \<lparr> m_trie := store (m_trie db) e
                                     (entry \<lparr> next_t := (next_t entry)(b := ident') \<rparr>),
                      m_num_trie_entries := n \<rparr>))
         else (ident, db))"

text \<open>The loop over the key bytes, from the entry reached so far; it ends when the entry
  is null.\<close>

fun find_loop ::
  "AggregateDB \<Rightarrow> nat option \<Rightarrow> 8 word list \<Rightarrow> bool \<Rightarrow> error + (nat option \<times> AggregateDB)" where
  "find_loop db None key alloc = Inr (None, db)"
| "find_loop db (Some e) [] alloc = Inr (Some e, db)"
| "find_loop db (Some e) (b # key) alloc =
     (case child_id db e b of
        (ident, db') \<Rightarrow>
          (case get TrieNode_ctor (m_trie db') (unat ident) alloc of
             Inl err \<Rightarrow> Inl err
           | Inr (entry', tr) \<Rightarrow> find_loop (db' \<lparr> m_trie := tr \<rparr>) entry' key alloc))"

text \<open>
  The loop \<open>for (unsigned i = 0; i < num_ids; ++i) if (m_kernels.get(first_id + i, alloc)
  == 0) return 0;\<close> from \<open>i\<close> on; \<open>first_id + i\<close> is 32-bit arithmetic. The result is
  whether every slot was obtained. (\<open>num_ids\<close>, the number of configured attributes, is
  below \<open>2 ^ 32\<close>, so \<open>i\<close> does not wrap.)
\<close>

fun kernel_loop ::
  "AggregateKernel BlockAlloc \<Rightarrow> 32 word \<Rightarrow> nat list \<Rightarrow> bool \<Rightarrow>
   error + (bool \<times> AggregateKernel BlockAlloc)" where
  "kernel_loop ks first_id [] alloc = Inr (True, ks)"
| "kernel_loop ks first_id (i # is) alloc =
     (case get AggregateKernel_ctor ks (unat (first_id + of_nat i)) alloc of
        Inl err \<Rightarrow> Inl err
      | Inr (None, ks') \<Rightarrow> Inr (False, ks')
      | Inr (Some _, ks') \<Rightarrow> kernel_loop ks' first_id is alloc)"

text \<open>The end of \<open>find_entry\<close>: an entry without kernels (\<open>k_id = 0xFFFFFFFF\<close>) gets
  the next \<open>num_ids\<close> kernel ids, if there are aggregated attributes; when a kernel
  cannot be obtained, null is returned.\<close>

definition kernel_ids ::
  "AggregateDB \<Rightarrow> nat option \<Rightarrow> bool \<Rightarrow> error + (nat option \<times> AggregateDB)" where
  "kernel_ids db entry alloc =
     (case entry of
        None \<Rightarrow> Inr (None, db)
      | Some e \<Rightarrow>
          if k_id (deref (m_trie db) e) = 0xFFFFFFFF then
            (let num_ids = length (m_aggr_attributes db) in
             if num_ids > 0 then
               (let first_id = (ucast (m_num_kernel_entries db + 1) :: 32 word);
                    db2 = db \<lparr> m_num_kernel_entries :=
                                 m_num_kernel_entries db + of_nat num_ids \<rparr>
                in case kernel_loop (m_kernels db2) first_id [0..<num_ids] alloc of
                     Inl err \<Rightarrow> Inl err
                   | Inr (False, ks) \<Rightarrow> Inr (None, db2 \<lparr> m_kernels := ks \<rparr>)
                   | Inr (True, ks) \<Rightarrow>
                       Inr (Some e,
                            db2 \<lparr> m_kernels := ks,
                                  m_trie := store (m_trie db2) e
                                    ((deref (m_trie db2) e) \<lparr> k_id := first_id \<rparr>) \<rparr>))
             else Inr (Some e, db))
          else Inr (Some e, db))"

definition find_entry ::
  "AggregateDB \<Rightarrow> 8 word list \<Rightarrow> bool \<Rightarrow> error + (nat option \<times> AggregateDB)" where
  "find_entry db key alloc =
     (case get TrieNode_ctor (m_trie db) 0 alloc of
        Inl err \<Rightarrow> Inl err
      | Inr (entry0, tr) \<Rightarrow>
          (case find_loop (db \<lparr> m_trie := tr \<rparr>) entry0 key alloc of
             Inl err \<Rightarrow> Inl err
           | Inr (entry, db1) \<Rightarrow> kernel_ids db1 entry alloc))"

text \<open>
  Where the walk of \<open>find_entry\<close> along the child ids that exist ends, read off a trie
  without changing it: at the entry for the key, at an id whose block is not allocated,
  or at an entry \<open>e\<close> whose child id for the next key byte \<open>b\<close> is 0, with the rest of the
  key behind \<open>b\<close>.
\<close>

datatype walk_end =
    Reached nat
  | MissingBlock
  | MissingChild nat "8 word" "8 word list"

fun walk_from :: "TrieNode BlockAlloc \<Rightarrow> nat option \<Rightarrow> 8 word list \<Rightarrow> error + walk_end" where
  "walk_from tr None key = Inr MissingBlock"
| "walk_from tr (Some e) [] = Inr (Reached e)"
| "walk_from tr (Some e) (b # key) =
     (if next_t (deref tr e) b = 0 then Inr (MissingChild e b key)
      else
        (case get TrieNode_ctor tr (unat (next_t (deref tr e) b)) False of
           Inl err \<Rightarrow> Inl err
         | Inr (entry', _) \<Rightarrow> walk_from tr entry' key))"

definition walk :: "TrieNode BlockAlloc \<Rightarrow> 8 word list \<Rightarrow> error + walk_end" where
  "walk tr key =
     (case get TrieNode_ctor tr 0 False of
        Inl err \<Rightarrow> Inl err
      | Inr (entry0, _) \<Rightarrow> walk_from tr entry0 key)"

text \<open>
  The constructor of \<open>AggregateDB\<close>: the aggregated attributes are looked up by their
  names. \<open>BlockAlloc\<close>'s constructor does not initialise \<open>m_num_blocks\<close>: \<open>nt\<close> and \<open>nk\<close>
  are the values the two counters happen to hold. The first block of each pool is
  allocated.
\<close>

definition BlockAlloc_ctor :: "64 word \<Rightarrow> 'a BlockAlloc" where
  "BlockAlloc_ctor n = \<lparr> m_blocks = (\<lambda>_. None), m_num_blocks = n \<rparr>"

definition AggregateDB_ctor :: "statics \<Rightarrow> Caliper \<Rightarrow> 64 word \<Rightarrow> 64 word \<Rightarrow> error + AggregateDB" where
  "AggregateDB_ctor st c nt nk =
     (case get TrieNode_ctor (BlockAlloc_ctor nt) 0 True of
        Inl err \<Rightarrow> Inl err
      | Inr (_, tr) \<Rightarrow>
          (case get AggregateKernel_ctor (BlockAlloc_ctor nk) 0 True of
             Inl err \<Rightarrow> Inl err
           | Inr (_, ks) \<Rightarrow>
               Inr \<lparr> m_stopped = False, m_retired = False, m_next = None, m_prev = None,
                     m_aggr_attributes = map (get_attribute c) (s_aggr_attribute_names st),
                     m_trie = tr, m_kernels = ks,
                     m_aggr_root_node = Node CALI_INV_ID CALI_INV_ID None,
                     m_num_trie_entries = 0, m_num_kernel_entries = 0,
                     m_num_dropped = 0, m_max_keylen = 0 \<rparr>))"

subsection \<open>The varint codec\<close>

text \<open>
  Modelled from the spec: \<open>vlenc_u64\<close> of \<open>c-util/vlenc.h\<close>, which is not among the
  sources. "Standard little-endian base-128 variable-length encoding of unsigned 64-bit
  integers: each output byte carries 7 payload bits; the high bit is 1 for continue, 0
  for the final byte." The result is the list of the bytes written; the return value of
  the source, the number of bytes, is its length.
\<close>

function vlenc_u64 :: "64 word \<Rightarrow> 8 word list" where
  "vlenc_u64 val =
     (if 0x7F < val then (ucast (val AND 0x7F) OR 0x80) # vlenc_u64 (drop_bit 7 val)
      else [ucast val])"
  by pat_completeness auto
termination
proof (relation "measure unat")
  show "wf (measure (unat :: 64 word \<Rightarrow> nat))"
    by simp
next
  fix val :: "64 word"
  assume "0x7F < val"
  then have "0 < unat val"
    by (simp add: word_less_nat_alt)
  then have "unat val div 2 ^ 7 < unat val"
    by simp
  then show "(drop_bit 7 val, val) \<in> measure unat"
    by (simp add: drop_bit_eq_div unat_div)
qed

declare vlenc_u64.simps [simp del]

subsection \<open>process_snapshot: the node part of the key\<close>

text \<open>The nodes visited by \<open>for (node = n; node; node = node->parent())\<close>.\<close>

fun parent_chain :: "node \<Rightarrow> node list" where
  "parent_chain (Node i a p) =
     Node i a p # (case p of None \<Rightarrow> [] | Some q \<Rightarrow> parent_chain q)"

text \<open>The list of all valid key attribute ids.\<close>

definition valid_key_attribute_ids :: "statics \<Rightarrow> 64 word list" where
  "valid_key_attribute_ids st = filter (\<lambda>k. k \<noteq> CALI_INV_ID) (s_key_attribute_ids st)"

text \<open>The first loop nest: \<open>key_entries[a]\<close> counts the nodes on the parent chains of the
  snapshot's nodes whose attribute is the key attribute \<open>a\<close>; \<open>start_nodes[i]\<close> is the
  first node on the chain of node \<open>i\<close> that has a key attribute.\<close>

definition count_key_entries :: "64 word list \<Rightarrow> node list \<Rightarrow> nat list" where
  "count_key_entries kids nodes =
     map (\<lambda>k. length (filter (\<lambda>n. attribute n = k) (concat (map parent_chain nodes)))) kids"

definition start_nodes :: "64 word list \<Rightarrow> node list \<Rightarrow> node option list" where
  "start_nodes kids nodes = map (\<lambda>n. find (\<lambda>m. attribute m \<in> set kids) (parent_chain n)) nodes"

text \<open>\<open>for (a = 1; a < n_key_attr; ++a) key_entries[a] += key_entries[a-1]\<close>.\<close>

fun prefix_sum :: "nat \<Rightarrow> nat list \<Rightarrow> nat list" where
  "prefix_sum acc [] = []"
| "prefix_sum acc (x # xs) = (acc + x) # prefix_sum (acc + x) xs"

text \<open>The second loop nest. For one node of a chain, the loop over the key attributes:
  \<open>nodelist[key_entries[a] - (++filled[a])] = node\<close>. The index is below \<open>tot_entries\<close>,
  since \<open>filled[a]\<close> counts the matches the first loop nest has counted already.\<close>

definition place_node ::
  "64 word list \<Rightarrow> nat list \<Rightarrow> node \<Rightarrow> node option list \<times> nat list \<Rightarrow>
   node option list \<times> nat list" where
  "place_node kids key_entries nd st =
     fold (\<lambda>a (nodelist, filled).
             if kids ! a = attribute nd
             then (nodelist[key_entries ! a - (filled ! a + 1) := Some nd],
                   filled[a := filled ! a + 1])
             else (nodelist, filled))
          [0..<length kids] st"

definition fill_nodelist ::
  "64 word list \<Rightarrow> nat list \<Rightarrow> node option list \<Rightarrow> nat \<Rightarrow> node option list" where
  "fill_nodelist kids key_entries starts tot_entries =
     fst (fold (\<lambda>s st. case s of
                         None \<Rightarrow> st
                       | Some n \<Rightarrow> fold (place_node kids key_entries) (parent_chain n) st)
               starts
               (replicate tot_entries None, replicate (length kids) 0))"

text \<open>The node ids that go into the key: \<open>nodeid_vec[0 .. n_nodes)\<close>. With a valid key
  attribute and a node in the snapshot it is the id of the one node the framework makes
  for the path of key nodes (nothing if there is no key node, or no node was made);
  otherwise the ids of the snapshot's nodes, sorted by \<open>std::sort\<close>.\<close>

definition key_node_ids :: "statics \<Rightarrow> Caliper \<Rightarrow> AggregateDB \<Rightarrow> SnapshotRecord \<Rightarrow> 64 word list" where
  "key_node_ids st c db snapshot =
     (let kids = valid_key_attribute_ids st;
          nodes = node_entries snapshot
      in if length kids > 0 \<and> length nodes > 0 then
           (let key_entries = prefix_sum 0 (count_key_entries kids nodes);
                tot_entries = last key_entries
            in if tot_entries > 0 then
                 (case make_tree_entry c
                         (fill_nodelist kids key_entries (start_nodes kids nodes) tot_entries)
                         (m_aggr_root_node db) of
                    Some n \<Rightarrow> [node_id n]
                  | None \<Rightarrow> [])
               else [])
         else sort (map node_id nodes))"

subsection \<open>process_snapshot: encoding the key\<close>

text \<open>The three buffers \<open>node_key\<close>, \<open>imm_key\<close> and \<open>key\<close> are arrays of \<open>MAX_KEYLEN\<close>
  bytes. A buffer is modelled by the bytes written to it so far; \<open>write_buf\<close> writes
  bytes behind them, which is an access outside the array when they do not fit.\<close>

definition write_buf :: "8 word list \<Rightarrow> 8 word list \<Rightarrow> error + 8 word list" where
  "write_buf buf bytes =
     (if length buf + length bytes \<le> MAX_KEYLEN then Inr (buf @ bytes) else Inl OutOfBounds)"

text \<open>\<open>for (i = 0; i < n_nodes && node_key_len+10 < MAX_KEYLEN; ++i)
  node_key_len += vlenc_u64(nodeid_vec[i], node_key + node_key_len)\<close>.\<close>

fun encode_nodes :: "64 word list \<Rightarrow> 8 word list \<Rightarrow> error + 8 word list" where
  "encode_nodes [] node_key = Inr node_key"
| "encode_nodes (x # xs) node_key =
     (if length node_key + 10 < MAX_KEYLEN then
        (case write_buf node_key (vlenc_u64 x) of
           Inl err \<Rightarrow> Inl err
         | Inr node_key' \<Rightarrow> encode_nodes xs node_key')
      else Inr node_key)"

text \<open>\<open>1 << k\<close> is a shift of the \<open>int\<close> 1, converted to \<open>uint64_t\<close> where it is used.
  Up to \<open>k = 30\<close> it is \<open>2 ^ k\<close>; for \<open>k = 31\<close> it is the most negative \<open>int\<close>, whose
  conversion has the bits 31 to 63 set; from \<open>k = 32\<close> on the shift is undefined.\<close>

definition bit_k :: "nat \<Rightarrow> error + 64 word" where
  "bit_k k =
     (if k < 31 then Inr (push_bit k 1)
      else if k = 31 then Inr 0xFFFFFFFF80000000
      else Inl UndefinedShift)"

text \<open>
  The inner loop of the immediate part, over the immediate entries of the snapshot, for
  the key attribute number \<open>k\<close> with id \<open>kid\<close>. The state is \<open>imm_key_bitfield\<close> and the
  bytes \<open>imm_key[0 .. imm_key_len)\<close>. The value of a matching entry is first written to
  \<open>imm_key + imm_key_len\<close>, then the length is checked: when the check fails the loop
  over the entries is left (\<open>break\<close>), otherwise the bit and the bytes are kept.
  \<open>node_key_len\<close> is \<open>nkl\<close>.
\<close>

fun imm_entries ::
  "nat \<Rightarrow> nat \<Rightarrow> 64 word \<Rightarrow> (64 word \<times> Variant) list \<Rightarrow> 64 word \<times> 8 word list \<Rightarrow>
   error + 64 word \<times> 8 word list" where
  "imm_entries nkl k kid [] (bitfield, imm_key) = Inr (bitfield, imm_key)"
| "imm_entries nkl k kid ((a, v) # es) (bitfield, imm_key) =
     (if kid = a then
        (case write_buf imm_key (vlenc_u64 (data v)) of
           Inl err \<Rightarrow> Inl err
         | Inr written \<Rightarrow>
             (case bit_k k of
                Inl err \<Rightarrow> Inl err
              | Inr b \<Rightarrow>
                  if MAX_KEYLEN \<le> nkl + length imm_key + length (vlenc_u64 (data v))
                                    + length (vlenc_u64 (bitfield OR b)) + 1
                  then Inr (bitfield, imm_key)
                  else imm_entries nkl k kid es (bitfield OR b, written)))
      else imm_entries nkl k kid es (bitfield, imm_key))"

text \<open>The outer loop, over the configured key attributes from number \<open>k\<close> on.\<close>

fun imm_attributes ::
  "nat \<Rightarrow> nat \<Rightarrow> 64 word list \<Rightarrow> (64 word \<times> Variant) list \<Rightarrow> 64 word \<times> 8 word list \<Rightarrow>
   error + 64 word \<times> 8 word list" where
  "imm_attributes nkl k [] es s = Inr s"
| "imm_attributes nkl k (kid # kids) es s =
     (case imm_entries nkl k kid es s of
        Inl err \<Rightarrow> Inl err
      | Inr s' \<Rightarrow> imm_attributes nkl (Suc k) kids es s')"

text \<open>The assembly of \<open>key\<close>: the toc, the node part, and with a non-zero bitfield the
  bitfield and the immediate part. \<open>n_nodes\<close> is a \<open>uint64_t\<close>.\<close>

definition assemble_key ::
  "64 word \<Rightarrow> 8 word list \<Rightarrow> 64 word \<Rightarrow> 8 word list \<Rightarrow> error + 8 word list" where
  "assemble_key n_nodes node_key bitfield imm_key =
     (case write_buf [] (vlenc_u64 (n_nodes * 2 + (if bitfield \<noteq> 0 then 1 else 0))) of
        Inl err \<Rightarrow> Inl err
      | Inr key1 \<Rightarrow>
          (case write_buf key1 node_key of
             Inl err \<Rightarrow> Inl err
           | Inr key2 \<Rightarrow>
               if bitfield \<noteq> 0 then
                 (case write_buf key2 (vlenc_u64 bitfield) of
                    Inl err \<Rightarrow> Inl err
                  | Inr key3 \<Rightarrow> write_buf key3 imm_key)
               else Inr key2))"

text \<open>The key of a snapshot: the part of \<open>process_snapshot\<close> from the node ids to the
  assembled \<open>key[0 .. pos)\<close>.\<close>

definition build_key ::
  "statics \<Rightarrow> Caliper \<Rightarrow> AggregateDB \<Rightarrow> SnapshotRecord \<Rightarrow> error + 8 word list" where
  "build_key st c db snapshot =
     (let nodeid_vec = key_node_ids st c db snapshot in
      case encode_nodes nodeid_vec [] of
        Inl err \<Rightarrow> Inl err
      | Inr node_key \<Rightarrow>
          (case imm_attributes (length node_key) 0 (s_key_attribute_ids st)
                  (immediate_entries snapshot) (0, []) of
             Inl err \<Rightarrow> Inl err
           | Inr (bitfield, imm_key) \<Rightarrow>
               assemble_key (of_nat (length nodeid_vec)) node_key bitfield imm_key))"

subsection \<open>process_snapshot\<close>

text \<open>The update of the kernels. For the aggregated attribute number \<open>a\<close> with id \<open>aid\<close>,
  the loop over the immediate entries: a matching entry is added to the kernel
  \<open>m_kernels.get(entry->k_id + a, alloc)\<close>, if there is one. \<open>ident\<close> is \<open>entry->k_id + a\<close>,
  a \<open>size_t\<close>.\<close>

fun update_kernel ::
  "AggregateKernel BlockAlloc \<Rightarrow> nat \<Rightarrow> 64 word \<Rightarrow> (64 word \<times> Variant) list \<Rightarrow> bool \<Rightarrow>
   error + AggregateKernel BlockAlloc" where
  "update_kernel ks ident aid [] alloc = Inr ks"
| "update_kernel ks ident aid ((a, v) # es) alloc =
     (if a = aid then
        (case get AggregateKernel_ctor ks ident alloc of
           Inl err \<Rightarrow> Inl err
         | Inr (None, ks') \<Rightarrow> update_kernel ks' ident aid es alloc
         | Inr (Some k, ks') \<Rightarrow>
             update_kernel (store ks' k (add (deref ks' k) (to_double v))) ident aid es alloc)
      else update_kernel ks ident aid es alloc)"

fun update_kernels ::
  "AggregateKernel BlockAlloc \<Rightarrow> 32 word \<Rightarrow> nat \<Rightarrow> Attribute list \<Rightarrow>
   (64 word \<times> Variant) list \<Rightarrow> bool \<Rightarrow> error + AggregateKernel BlockAlloc" where
  "update_kernels ks kid a [] es alloc = Inr ks"
| "update_kernels ks kid a (attr # attrs) es alloc =
     (case update_kernel ks (unat kid + a) (attr_id attr) es alloc of
        Inl err \<Rightarrow> Inl err
      | Inr ks' \<Rightarrow> update_kernels ks' kid (Suc a) attrs es alloc)"

definition process_snapshot ::
  "statics \<Rightarrow> Caliper \<Rightarrow> AggregateDB \<Rightarrow> SnapshotRecord \<Rightarrow> error + AggregateDB" where
  "process_snapshot st c db snapshot =
     (if length (node_entries snapshot) + length (immediate_entries snapshot) = 0 then Inr db
      else
        (case build_key st c db snapshot of
           Inl err \<Rightarrow> Inl err
         | Inr key \<Rightarrow>
             (case find_entry (db \<lparr> m_max_keylen := max (of_nat (length key)) (m_max_keylen db) \<rparr>)
                     key (\<not> is_signal c) of
                Inl err \<Rightarrow> Inl err
              | Inr (None, db1) \<Rightarrow> Inr (db1 \<lparr> m_num_dropped := m_num_dropped db1 + 1 \<rparr>)
              | Inr (Some e, db1) \<Rightarrow>
                  (let entry = deref (m_trie db1) e;
                       db2 = db1 \<lparr> m_trie := store (m_trie db1) e
                                               (entry \<lparr> count_t := count_t entry + 1 \<rparr>) \<rparr>
                   in case update_kernels (m_kernels db2) (k_id entry) 0
                             (m_aggr_attributes db2) (immediate_entries snapshot)
                             (\<not> is_signal c) of
                        Inl err \<Rightarrow> Inl err
                      | Inr ks \<Rightarrow> Inr (db2 \<lparr> m_kernels := ks \<rparr>)))))"

subsection \<open>Flush\<close>

text \<open>
  Modelled from the spec: \<open>vldec_u64\<close> of \<open>c-util/vlenc.h\<close>, which is not among the
  sources. "\<open>decode(in) \<rightarrow> (value, length)\<close>. Decoder must accept up to 10 bytes; more
  indicates corruption (fails with \<open>DecodeError\<close>)." The first argument is the number of
  bytes it still accepts. The byte list is the rest of the buffer: reading behind its
  end is an access outside the buffer.
\<close>

fun vldec_u64 :: "nat \<Rightarrow> 8 word list \<Rightarrow> error + 64 word \<times> nat" where
  "vldec_u64 0 bs = Inl DecodeError"
| "vldec_u64 (Suc n) [] = Inl OutOfBounds"
| "vldec_u64 (Suc n) (b # bs) =
     (if b AND 0x80 \<noteq> 0 then
        (case vldec_u64 n bs of
           Inl err \<Rightarrow> Inl err
         | Inr (v, len) \<Rightarrow> Inr (ucast (b AND 0x7F) OR push_bit 7 v, Suc len))
      else Inr (ucast b, 1))"

text \<open>The entries the service appends to the snapshot record it writes: a node, or an
  attribute id with a \<open>Variant\<close>. The variants it makes are a 64-bit word with the type
  of a key attribute, a \<open>double\<close>, and a \<open>CALI_TYPE_UINT\<close>. The record is the
  framework's \<open>SnapshotRecord\<close>; it is modelled by the sequence of the \<open>append\<close> calls
  the service makes, in their order (what \<open>append\<close> does with an entry is up to the
  framework).\<close>

datatype out_variant =
    Raw cali_attr_type "64 word"
  | Double real
  | Uint "64 word"

datatype out_entry =
    NodeEntry "node option"
  | ImmEntry "64 word" out_variant

text \<open>The loop that decodes the node ids: \<open>n\<close> ids from position \<open>p\<close> of the buffer.\<close>

fun decode_nodes ::
  "Caliper \<Rightarrow> nat \<Rightarrow> 8 word list \<Rightarrow> nat \<Rightarrow> error + out_entry list \<times> nat" where
  "decode_nodes c 0 buf p = Inr ([], p)"
| "decode_nodes c (Suc n) buf p =
     (case vldec_u64 10 (drop p buf) of
        Inl err \<Rightarrow> Inl err
      | Inr (ident, len) \<Rightarrow>
          (case decode_nodes c n buf (p + len) of
             Inl err \<Rightarrow> Inl err
           | Inr (es, p') \<Rightarrow> Inr (NodeEntry (node_of_id c ident) # es, p')))"

text \<open>The loop that decodes the immediate key entries, over the key attributes from
  number \<open>k\<close> on.\<close>

fun decode_immediates ::
  "statics \<Rightarrow> 64 word \<Rightarrow> nat \<Rightarrow> 64 word list \<Rightarrow> 8 word list \<Rightarrow> nat \<Rightarrow> error + out_entry list" where
  "decode_immediates st bitfield k [] buf p = Inr []"
| "decode_immediates st bitfield k (kid # kids) buf p =
     (case bit_k k of
        Inl err \<Rightarrow> Inl err
      | Inr b \<Rightarrow>
          if bitfield AND b \<noteq> 0 then
            (case vldec_u64 10 (drop p buf) of
               Inl err \<Rightarrow> Inl err
             | Inr (val, len) \<Rightarrow>
                 if k < length (s_key_attributes st) then
                   (case decode_immediates st bitfield (Suc k) kids buf (p + len) of
                      Inl err \<Rightarrow> Inl err
                    | Inr es \<Rightarrow>
                        Inr (ImmEntry kid (Raw (attr_type (s_key_attributes st ! k)) val) # es))
                 else Inl OutOfBounds)
          else decode_immediates st bitfield (Suc k) kids buf p)"

text \<open>\<open>static_cast<int>(toc)/2\<close>: the low 32 bits of \<open>toc\<close> as an \<open>int\<close>, divided with
  truncation towards zero.\<close>

definition num_nodes_of_toc :: "64 word \<Rightarrow> int" where
  "num_nodes_of_toc toc =
     (let t = sint (ucast toc :: 32 word) in if t < 0 then - ((- t) div 2) else t div 2)"

definition decode_key :: "statics \<Rightarrow> Caliper \<Rightarrow> 8 word list \<Rightarrow> error + out_entry list" where
  "decode_key st c buf =
     (case vldec_u64 10 buf of
        Inl err \<Rightarrow> Inl err
      | Inr (toc, p) \<Rightarrow>
          (case decode_nodes c (nat (min (num_nodes_of_toc toc) (int SNAP_MAX))) buf p of
             Inl err \<Rightarrow> Inl err
           | Inr (nodes, p') \<Rightarrow>
               if toc mod 2 = 1 then
                 (case vldec_u64 10 (drop p' buf) of
                    Inl err \<Rightarrow> Inl err
                  | Inr (imm_bitfield, len) \<Rightarrow>
                      (case decode_immediates st imm_bitfield 0 (s_key_attribute_ids st)
                              buf (p' + len) of
                         Inl err \<Rightarrow> Inl err
                       | Inr imms \<Rightarrow> Inr (nodes @ imms)))
               else Inr nodes))"

text \<open>The three entries appended for an aggregated attribute with a kernel.\<close>

definition statistics_entries :: "StatisticsAttributes \<Rightarrow> AggregateKernel \<Rightarrow> out_entry list" where
  "statistics_entries sa k =
     [ImmEntry (attr_id (min_attr sa)) (Double (min_k k)),
      ImmEntry (attr_id (max_attr sa)) (Double (max_k k)),
      ImmEntry (attr_id (sum_attr sa)) (Double (sum_k k))]"

text \<open>
  The loop that writes the aggregate entries, over the attribute numbers \<open>a\<close> of the
  list: \<open>entry->k_id + a\<close> is 32-bit arithmetic. A kernel that cannot be fetched ends the
  loop (\<open>break\<close>); a kernel with \<open>count = 0\<close> is skipped (\<open>continue\<close>).
\<close>

fun write_statistics ::
  "statics \<Rightarrow> AggregateDB \<Rightarrow> 32 word \<Rightarrow> nat list \<Rightarrow> error + out_entry list" where
  "write_statistics st db kid [] = Inr []"
| "write_statistics st db kid (a # rest) =
     (case get AggregateKernel_ctor (m_kernels db) (unat (kid + of_nat a)) False of
        Inl err \<Rightarrow> Inl err
      | Inr (None, _) \<Rightarrow> Inr []
      | Inr (Some k, _) \<Rightarrow>
          if count_k (deref (m_kernels db) k) = 0 then write_statistics st db kid rest
          else if a < length (s_stats_attributes st) then
            (case write_statistics st db kid rest of
               Inl err \<Rightarrow> Inl err
             | Inr es \<Rightarrow>
                 Inr (statistics_entries (s_stats_attributes st ! a) (deref (m_kernels db) k)
                      @ es))
          else Inl OutOfBounds)"

text \<open>The second part of \<open>write_aggregated_snapshot\<close> ("write aggregate entries"): the
  statistics of the first \<open>SNAP_MAX/3\<close> aggregated attributes at most, and the count.\<close>

definition write_aggregate_entries ::
  "statics \<Rightarrow> AggregateDB \<Rightarrow> TrieNode \<Rightarrow> error + out_entry list" where
  "write_aggregate_entries st db entry =
     (case write_statistics st db (k_id entry)
             [0..<min (length (m_aggr_attributes db)) (SNAP_MAX div 3)] of
        Inl err \<Rightarrow> Inl err
      | Inr stats \<Rightarrow>
          Inr (stats @
               [ImmEntry (attr_id (s_count_attribute st)) (Uint (ucast (count_t entry)))]))"

text \<open>\<open>write_aggregated_snapshot\<close>: the snapshot record handed to \<open>flush_snapshot\<close>, the
  decoded key entries followed by the aggregate entries. The buffer \<open>key\<close> points to
  holds the key bytes and one more byte, 0.\<close>

definition write_aggregated_snapshot ::
  "statics \<Rightarrow> Caliper \<Rightarrow> AggregateDB \<Rightarrow> 8 word list \<Rightarrow> TrieNode \<Rightarrow> error + out_entry list" where
  "write_aggregated_snapshot st c db key entry =
     (case decode_key st c (key @ [0]) of
        Inl err \<Rightarrow> Inl err
      | Inr key_entries \<Rightarrow>
          (case write_aggregate_entries st db entry of
             Inl err \<Rightarrow> Inl err
           | Inr aggregate_entries \<Rightarrow> Inr (key_entries @ aggregate_entries)))"

text \<open>
  \<open>recursive_flush\<close>: the snapshot records written for the entry and the entries below
  it, in the order they are written; the value the source returns is their number. The
  recursion follows the child ids, which a trie that was not built by \<open>find_entry\<close> need
  not leave: the first argument bounds the depth of the recursion, and \<open>None\<close> means that
  the bound was reached.
\<close>

fun recursive_flush ::
  "nat \<Rightarrow> statics \<Rightarrow> Caliper \<Rightarrow> AggregateDB \<Rightarrow> 8 word list \<Rightarrow> nat option \<Rightarrow>
   (error + out_entry list list) option" where
  "recursive_flush depth st c db key None = Some (Inr [])"
| "recursive_flush 0 st c db key (Some e) = None"
| "recursive_flush (Suc depth) st c db key (Some e) =
     (let entry = deref (m_trie db) e in
      case (if 0 < count_t entry
            then (case write_aggregated_snapshot st c db key entry of
                    Inl err \<Rightarrow> Inl err
                  | Inr snapshot \<Rightarrow> Inr [snapshot])
            else Inr []) of
        Inl err \<Rightarrow> Some (Inl err)
      | Inr own \<Rightarrow>
          fold (\<lambda>i acc.
                  case acc of
                    None \<Rightarrow> None
                  | Some (Inl err) \<Rightarrow> Some (Inl err)
                  | Some (Inr written) \<Rightarrow>
                      if next_t entry i = 0 then Some (Inr written)
                      else
                        (case get TrieNode_ctor (m_trie db) (unat (next_t entry i)) False of
                           Inl err \<Rightarrow> Some (Inl err)
                         | Inr (e', _) \<Rightarrow>
                             (case recursive_flush depth st c db (key @ [i]) e' of
                                None \<Rightarrow> None
                              | Some (Inl err) \<Rightarrow> Some (Inl err)
                              | Some (Inr below) \<Rightarrow> Some (Inr (written @ below)))))
               (map of_nat [0..<256]) (Some (Inr own)))"

definition flush ::
  "nat \<Rightarrow> statics \<Rightarrow> Caliper \<Rightarrow> AggregateDB \<Rightarrow> (error + out_entry list list) option" where
  "flush depth st c db =
     (case get TrieNode_ctor (m_trie db) 0 False of
        Inl err \<Rightarrow> Some (Inl err)
      | Inr (entry, _) \<Rightarrow> recursive_flush depth st c db [] entry)"

definition clear :: "AggregateDB \<Rightarrow> AggregateDB" where
  "clear db =
     db \<lparr> m_trie := clear_blocks (m_trie db),
          m_kernels := clear_blocks (m_kernels db),
          m_num_trie_entries := 0,
          m_num_kernel_entries := 0,
          m_num_dropped := 0,
          m_max_keylen := 0 \<rparr>"

subsection \<open>The registry of databases\<close>

text \<open>
  The static state of the service that changes: the databases that exist (made by
  \<open>new\<close> and not deleted), by address; the head \<open>s_list\<close> of the list of databases; for
  each thread the value of its slot \<open>s_aggregate_db_key\<close>; and the global statistics.
\<close>

type_synonym thread = nat

record registry =
  dbs :: "addr \<Rightarrow> AggregateDB option"
  s_list :: "addr option"
  db_of_thread :: "thread \<Rightarrow> addr option"
  s_global_num_trie_entries :: "64 word"
  s_global_num_kernel_entries :: "64 word"
  s_global_num_trie_blocks :: "64 word"
  s_global_num_kernel_blocks :: "64 word"
  s_global_num_dropped :: "64 word"
  s_global_max_keylen :: "64 word"

text \<open>What the system decides in a call of \<open>acquire\<close>: the address \<open>new\<close> returns, the
  values of the two counters the constructor leaves uninitialised, and whether
  \<open>pthread_setspecific\<close> returns 0.\<close>

record environment =
  new_address :: addr
  uninitialised_trie_blocks :: "64 word"
  uninitialised_kernel_blocks :: "64 word"
  pthread_setspecific_ok :: bool

text \<open>\<open>acquire(c, alloc)\<close>, called in thread \<open>t\<close>.\<close>

definition acquire ::
  "statics \<Rightarrow> Caliper \<Rightarrow> environment \<Rightarrow> thread \<Rightarrow> bool \<Rightarrow> registry \<Rightarrow>
   error + addr option \<times> registry" where
  "acquire st c env t alloc g =
     (if alloc \<and> db_of_thread g t = None then
        (case AggregateDB_ctor st c (uninitialised_trie_blocks env)
                (uninitialised_kernel_blocks env) of
           Inl err \<Rightarrow> Inl err
         | Inr db \<Rightarrow>
             (let a = new_address env;
                  g1 = g \<lparr> dbs := (dbs g)(a \<mapsto> db) \<rparr>
              in if pthread_setspecific_ok env then
                   (let g2 = g1 \<lparr> db_of_thread := (db_of_thread g1)(t \<mapsto> a) \<rparr>
                    in case s_list g2 of
                         None \<Rightarrow> Inr (Some a, g2 \<lparr> s_list := Some a \<rparr>)
                       | Some l \<Rightarrow>
                           (case dbs g2 l of
                              None \<Rightarrow> Inl InvalidPointer
                            | Some ldb \<Rightarrow>
                                (let g3 = g2 \<lparr> dbs := (dbs g2)(l \<mapsto> ldb \<lparr> m_prev := Some a \<rparr>) \<rparr>
                                 in case dbs g3 a of
                                      None \<Rightarrow> Inl InvalidPointer
                                    | Some db' \<Rightarrow>
                                        Inr (Some a,
                                             g3 \<lparr> dbs := (dbs g3)(a \<mapsto> db' \<lparr> m_next := Some l \<rparr>),
                                                  s_list := Some a \<rparr>))))
                 else Inr (Some a, g1)))
      else Inr (db_of_thread g t, g))"

text \<open>\<open>retire(ptr)\<close>, the destructor of the thread slot.\<close>

definition retire :: "addr option \<Rightarrow> registry \<Rightarrow> error + registry" where
  "retire ptr g =
     (case ptr of
        None \<Rightarrow> Inr g
      | Some a \<Rightarrow>
          (case dbs g a of
             None \<Rightarrow> Inl InvalidPointer
           | Some db \<Rightarrow> Inr (g \<lparr> dbs := (dbs g)(a \<mapsto> db \<lparr> m_retired := True \<rparr>) \<rparr>)))"

text \<open>\<open>process_snapshot_cb\<close>, called in thread \<open>t\<close>.\<close>

definition process_snapshot_cb ::
  "statics \<Rightarrow> Caliper \<Rightarrow> environment \<Rightarrow> thread \<Rightarrow> SnapshotRecord \<Rightarrow> registry \<Rightarrow>
   error + registry" where
  "process_snapshot_cb st c env t snapshot g =
     (case acquire st c env t (\<not> is_signal c) g of
        Inl err \<Rightarrow> Inl err
      | Inr (None, g1) \<Rightarrow> Inr (g1 \<lparr> s_global_num_dropped := s_global_num_dropped g1 + 1 \<rparr>)
      | Inr (Some a, g1) \<Rightarrow>
          (case dbs g1 a of
             None \<Rightarrow> Inl InvalidPointer
           | Some db \<Rightarrow>
               if \<not> m_stopped db then
                 (case process_snapshot st c db snapshot of
                    Inl err \<Rightarrow> Inl err
                  | Inr db' \<Rightarrow> Inr (g1 \<lparr> dbs := (dbs g1)(a \<mapsto> db') \<rparr>))
               else Inr (g1 \<lparr> s_global_num_dropped := s_global_num_dropped g1 + 1 \<rparr>)))"

text \<open>\<open>unlink()\<close> of the database at \<open>a\<close>.\<close>

definition unlink :: "addr \<Rightarrow> registry \<Rightarrow> error + registry" where
  "unlink a g =
     (case dbs g a of
        None \<Rightarrow> Inl InvalidPointer
      | Some db \<Rightarrow>
          (case (case m_next db of
                   None \<Rightarrow> Inr g
                 | Some n \<Rightarrow>
                     (case dbs g n of
                        None \<Rightarrow> Inl InvalidPointer
                      | Some ndb \<Rightarrow> Inr (g \<lparr> dbs := (dbs g)(n \<mapsto> ndb \<lparr> m_prev := m_prev db \<rparr>) \<rparr>))) of
             Inl err \<Rightarrow> Inl err
           | Inr g1 \<Rightarrow>
               (case m_prev db of
                  None \<Rightarrow> Inr g1
                | Some p \<Rightarrow>
                    (case dbs g1 p of
                       None \<Rightarrow> Inl InvalidPointer
                     | Some pdb \<Rightarrow>
                         Inr (g1 \<lparr> dbs := (dbs g1)(p \<mapsto> pdb \<lparr> m_next := m_next db \<rparr>) \<rparr>)))))"

text \<open>The statistics of a database are added to the global ones.\<close>

definition add_statistics :: "AggregateDB \<Rightarrow> registry \<Rightarrow> registry" where
  "add_statistics db g =
     g \<lparr> s_global_num_trie_entries := s_global_num_trie_entries g + m_num_trie_entries db,
         s_global_num_kernel_entries := s_global_num_kernel_entries g + m_num_kernel_entries db,
         s_global_num_trie_blocks := s_global_num_trie_blocks g + m_num_blocks (m_trie db),
         s_global_num_kernel_blocks := s_global_num_kernel_blocks g + m_num_blocks (m_kernels db),
         s_global_num_dropped := s_global_num_dropped g + m_num_dropped db,
         s_global_max_keylen := max (s_global_max_keylen g) (m_max_keylen db) \<rparr>"

text \<open>A database after \<open>flush_cb\<close> is done with it: stopped, flushed (which does not
  change it), cleared, and no longer stopped.\<close>

definition flushed_db :: "AggregateDB \<Rightarrow> AggregateDB" where
  "flushed_db db = (clear (db \<lparr> m_stopped := True \<rparr>)) \<lparr> m_stopped := False \<rparr>"

text \<open>The end of the loop body: a retired database \<open>db\<close> at \<open>a\<close> is unlinked, \<open>s_list\<close>
  is moved on if it was the head, and it is deleted.\<close>

definition remove_retired :: "addr \<Rightarrow> AggregateDB \<Rightarrow> registry \<Rightarrow> error + registry" where
  "remove_retired a db g =
     (if m_retired db then
        (case unlink a g of
           Inl err \<Rightarrow> Inl err
         | Inr g' \<Rightarrow>
             Inr ((if s_list g' = Some a then g' \<lparr> s_list := m_next db \<rparr> else g')
                  \<lparr> dbs := (dbs g')(a := None) \<rparr>))
      else Inr g)"

text \<open>
  The loop \<open>while (db)\<close> of \<open>flush_cb\<close>, from the database pointer \<open>db\<close>. The result is the
  addresses of the databases visited, the snapshot records written (the source counts
  them in \<open>num_written\<close>) and the registry. The list of databases of a registry that was
  not built by \<open>acquire\<close> need not end: the first argument bounds the number of databases
  visited, the second the depth of the recursion of each flush, and \<open>None\<close> means that a
  bound was reached.
\<close>

fun flush_loop ::
  "nat \<Rightarrow> nat \<Rightarrow> statics \<Rightarrow> Caliper \<Rightarrow> addr option \<Rightarrow> registry \<Rightarrow>
   (error + addr list \<times> out_entry list list \<times> registry) option" where
  "flush_loop n depth st c None g = Some (Inr ([], [], g))"
| "flush_loop 0 depth st c (Some a) g = None"
| "flush_loop (Suc n) depth st c (Some a) g =
     (case dbs g a of
        None \<Rightarrow> Some (Inl InvalidPointer)
      | Some db \<Rightarrow>
          (case flush depth st c (db \<lparr> m_stopped := True \<rparr>) of
             None \<Rightarrow> None
           | Some (Inl err) \<Rightarrow> Some (Inl err)
           | Some (Inr written) \<Rightarrow>
               (case remove_retired a (flushed_db db)
                       ((add_statistics db g) \<lparr> dbs := (dbs g)(a \<mapsto> flushed_db db) \<rparr>) of
                  Inl err \<Rightarrow> Some (Inl err)
                | Inr g' \<Rightarrow>
                    (case flush_loop n depth st c (m_next (flushed_db db)) g' of
                       None \<Rightarrow> None
                     | Some (Inl err) \<Rightarrow> Some (Inl err)
                     | Some (Inr (visited, below, g'')) \<Rightarrow>
                         Some (Inr (a # visited, written @ below, g''))))))"

definition flush_cb ::
  "nat \<Rightarrow> nat \<Rightarrow> statics \<Rightarrow> Caliper \<Rightarrow> registry \<Rightarrow>
   (error + addr list \<times> out_entry list list \<times> registry) option" where
  "flush_cb n depth st c g = flush_loop n depth st c (s_list g) g"

subsection \<open>A database right after its construction\<close>

text \<open>The database the constructor builds for one aggregated attribute (both block
  counters starting from 0), and the same database after \<open>find_entry\<close> was called on
  it for the one-byte key \<open>5\<close> without permission to allocate.\<close>

definition example_attr :: Attribute where
  "example_attr = \<lparr> attr_id = 7, attr_type = CALI_TYPE_DOUBLE \<rparr>"

definition example_statics :: statics where
  "example_statics =
     \<lparr> s_count_attribute = \<lparr> attr_id = 100, attr_type = CALI_TYPE_INT \<rparr>,
       s_key_attribute_ids = [],
       s_key_attributes = [],
       s_aggr_attribute_names = [''t''],
       s_stats_attributes =
         [\<lparr> min_attr = \<lparr> attr_id = 101, attr_type = CALI_TYPE_DOUBLE \<rparr>,
            max_attr = \<lparr> attr_id = 102, attr_type = CALI_TYPE_DOUBLE \<rparr>,
            sum_attr = \<lparr> attr_id = 103, attr_type = CALI_TYPE_DOUBLE \<rparr> \<rparr>] \<rparr>"

definition example_caliper :: Caliper where
  "example_caliper =
     \<lparr> is_signal = False,
       get_attribute = (\<lambda>_. example_attr),
       make_tree_entry = (\<lambda>_ _. None),
       node_of_id = (\<lambda>i. Some (Node i 0 None)) \<rparr>"

definition example_db :: AggregateDB where
  "example_db =
     \<lparr> m_stopped = False, m_retired = False, m_next = None, m_prev = None,
       m_aggr_attributes = [example_attr],
       m_trie = \<lparr> m_blocks = [0 \<mapsto> (\<lambda>_. TrieNode_ctor)], m_num_blocks = 1 \<rparr>,
       m_kernels = \<lparr> m_blocks = [0 \<mapsto> (\<lambda>_. AggregateKernel_ctor)], m_num_blocks = 1 \<rparr>,
       m_aggr_root_node = Node CALI_INV_ID CALI_INV_ID None,
       m_num_trie_entries = 0, m_num_kernel_entries = 0,
       m_num_dropped = 0, m_max_keylen = 0 \<rparr>"

definition example_db_found :: AggregateDB where
  "example_db_found =
     example_db
       \<lparr> m_trie :=
           \<lparr> m_blocks = [0 \<mapsto> (\<lambda>_. TrieNode_ctor)
                (0 := TrieNode_ctor \<lparr> next_t := (\<lambda>_. 0)(5 := 1) \<rparr>,
                 1 := TrieNode_ctor \<lparr> k_id := 1 \<rparr>)],
             m_num_blocks = 1 \<rparr>,
         m_num_trie_entries := 1,
         m_num_kernel_entries := 1 \<rparr>"

subsection \<open>Snapshots with many immediate key entries\<close>

text \<open>Thirteen key attributes, and a snapshot with an immediate entry for each of them
  whose value is the integer -1, a varint of 10 bytes.\<close>

definition overflow_statics :: statics where
  "overflow_statics =
     example_statics \<lparr> s_key_attribute_ids := [1, 2, 3, 4, 5, 6, 7, 8, 9, 10, 11, 12, 13] \<rparr>"

definition minus_one :: Variant where
  "minus_one = \<lparr> data = 0xFFFFFFFFFFFFFFFF, to_double = - 1 \<rparr>"

definition overflow_snapshot :: SnapshotRecord where
  "overflow_snapshot =
     \<lparr> node_entries = [],
       immediate_entries =
         [(1, minus_one), (2, minus_one), (3, minus_one), (4, minus_one), (5, minus_one),
          (6, minus_one), (7, minus_one), (8, minus_one), (9, minus_one), (10, minus_one),
          (11, minus_one), (12, minus_one), (13, minus_one)] \<rparr>"

text \<open>Fifteen key attributes, and a snapshot with an immediate entry for each: the
  first fourteen values are varints of 9 bytes, the last one is a varint of 1 byte.\<close>

definition skipping_statics :: statics where
  "skipping_statics =
     example_statics
       \<lparr> s_key_attribute_ids := [1, 2, 3, 4, 5, 6, 7, 8, 9, 10, 11, 12, 13, 14, 15] \<rparr>"

definition wide :: Variant where
  "wide = \<lparr> data = 0x0100000000000000, to_double = 72057594037927936 \<rparr>"

definition narrow :: Variant where
  "narrow = \<lparr> data = 5, to_double = 5 \<rparr>"

definition skipping_snapshot :: SnapshotRecord where
  "skipping_snapshot =
     \<lparr> node_entries = [],
       immediate_entries =
         [(1, wide), (2, wide), (3, wide), (4, wide), (5, wide), (6, wide), (7, wide),
          (8, wide), (9, wide), (10, wide), (11, wide), (12, wide), (13, wide), (14, wide),
          (15, narrow)] \<rparr>"

definition thirteen_wide :: "8 word list" where
  "thirteen_wide =
     concat (replicate 13 [0x80, 0x80, 0x80, 0x80, 0x80, 0x80, 0x80, 0x80, 0x01])"

subsection \<open>Two snapshots with the same nodes in different order\<close>

definition snapshot_3_5 :: SnapshotRecord where
  "snapshot_3_5 =
     \<lparr> node_entries = [Node 3 0 None, Node 5 0 None],
       immediate_entries = [(7, \<lparr> data = 0, to_double = 1 \<rparr>)] \<rparr>"

definition snapshot_5_3 :: SnapshotRecord where
  "snapshot_5_3 =
     \<lparr> node_entries = [Node 5 0 None, Node 3 0 None],
       immediate_entries = [(7, \<lparr> data = 0, to_double = 1 \<rparr>)] \<rparr>"

subsection \<open>The aggregated attributes a snapshot record is written for\<close>

text \<open>Whether the kernel of the aggregated attribute number \<open>a\<close> can be fetched for an
  entry with kernel id \<open>kid\<close>, the kernel, and the attribute numbers
  \<open>write_aggregated_snapshot\<close> appends statistics for: those with a non-zero count among
  the first \<open>SNAP_MAX/3\<close> before the first one whose kernel cannot be fetched.\<close>

definition kernel_fetched :: "AggregateDB \<Rightarrow> 32 word \<Rightarrow> nat \<Rightarrow> bool" where
  "kernel_fetched db kid a =
     (case get AggregateKernel_ctor (m_kernels db) (unat (kid + of_nat a)) False of
        Inr (Some _, _) \<Rightarrow> True
      | _ \<Rightarrow> False)"

definition kernel_of :: "AggregateDB \<Rightarrow> 32 word \<Rightarrow> nat \<Rightarrow> AggregateKernel" where
  "kernel_of db kid a = deref (m_kernels db) (unat (kid + of_nat a))"

definition attributes_written :: "AggregateDB \<Rightarrow> 32 word \<Rightarrow> nat list" where
  "attributes_written db kid =
     filter (\<lambda>a. count_k (kernel_of db kid a) \<noteq> 0)
       (takeWhile (kernel_fetched db kid)
          [0..<min (length (m_aggr_attributes db)) (SNAP_MAX div 3)])"

text \<open>A database with one entry, for the key of the node 7, that has absorbed the
  values 10, 30 and 20.\<close>

definition example_entry :: TrieNode where
  "example_entry = TrieNode_ctor \<lparr> k_id := 1, count_t := 3 \<rparr>"

definition example_db_flushed :: AggregateDB where
  "example_db_flushed =
     example_db
       \<lparr> m_kernels :=
           \<lparr> m_blocks = [0 \<mapsto> (\<lambda>_. AggregateKernel_ctor)
                (1 := \<lparr> min_k = 10, max_k = 30, sum_k = 60, count_k = 3 \<rparr>)],
             m_num_blocks = 1 \<rparr> \<rparr>"

text \<open>Five aggregated attributes, and an entry whose kernels have the ids 1021 to 1025:
  the kernels 1021 and 1023 have absorbed values, the kernel 1022 has not, and the
  kernels 1024 and 1025 lie in a block that is not allocated.\<close>

definition five_statics :: statics where
  "five_statics =
     example_statics
       \<lparr> s_aggr_attribute_names := [''a'', ''b'', ''c'', ''d'', ''e''],
         s_stats_attributes := replicate 5 (hd (s_stats_attributes example_statics)) \<rparr>"

definition five_db :: AggregateDB where
  "five_db =
     example_db
       \<lparr> m_aggr_attributes := replicate 5 example_attr,
         m_kernels :=
           \<lparr> m_blocks = [0 \<mapsto> (\<lambda>_. AggregateKernel_ctor)
                (1021 := \<lparr> min_k = 10, max_k = 30, sum_k = 60, count_k = 3 \<rparr>,
                 1023 := \<lparr> min_k = 1, max_k = 2, sum_k = 3, count_k = 2 \<rparr>)],
             m_num_blocks = 1 \<rparr> \<rparr>"

definition five_entry :: TrieNode where
  "five_entry = TrieNode_ctor \<lparr> k_id := 1021, count_t := 4 \<rparr>"

text \<open>Thirty aggregated attributes, and an entry whose kernels have all absorbed the
  one value 1.\<close>

definition thirty_statics :: statics where
  "thirty_statics =
     example_statics
       \<lparr> s_aggr_attribute_names := replicate 30 ''a'',
         s_stats_attributes := replicate 30 (hd (s_stats_attributes example_statics)) \<rparr>"

definition thirty_db :: AggregateDB where
  "thirty_db =
     example_db
       \<lparr> m_aggr_attributes := replicate 30 example_attr,
         m_kernels :=
           \<lparr> m_blocks = [0 \<mapsto> (\<lambda>_. \<lparr> min_k = 1, max_k = 1, sum_k = 1, count_k = 1 \<rparr>)],
             m_num_blocks = 1 \<rparr> \<rparr>"

definition thirty_entry :: TrieNode where
  "thirty_entry = TrieNode_ctor \<lparr> k_id := 1, count_t := 1 \<rparr>"

text \<open>A database whose root has the child id 5000 for the byte 5, in a block that is
  not allocated, and a database whose next trie id, 2048, lies in such a block.\<close>

definition dangling_db :: AggregateDB where
  "dangling_db =
     example_db
       \<lparr> m_trie :=
           \<lparr> m_blocks = [0 \<mapsto> (\<lambda>_. TrieNode_ctor)
                (0 := TrieNode_ctor \<lparr> next_t := (\<lambda>_. 0)(5 := 5000) \<rparr>)],
             m_num_blocks = 1 \<rparr>,
         m_num_trie_entries := 5000 \<rparr>"

definition full_block_db :: AggregateDB where
  "full_block_db = example_db \<lparr> m_num_trie_entries := 2047 \<rparr>"

definition full_block_db_assigned :: AggregateDB where
  "full_block_db_assigned =
     example_db
       \<lparr> m_trie :=
           \<lparr> m_blocks = [0 \<mapsto> (\<lambda>_. TrieNode_ctor)
                (0 := TrieNode_ctor \<lparr> next_t := (\<lambda>_. 0)(5 := 2048) \<rparr>)],
             m_num_blocks = 1 \<rparr>,
         m_num_trie_entries := 2048 \<rparr>"

subsection \<open>Databases nothing refers to\<close>

text \<open>Nothing in the registry refers to the address \<open>a\<close>: neither \<open>s_list\<close>, nor the slot
  of a thread, nor \<open>m_next\<close> or \<open>m_prev\<close> of another database.\<close>

definition unreferenced :: "addr \<Rightarrow> registry \<Rightarrow> bool" where
  "unreferenced a g =
     (s_list g \<noteq> Some a \<and>
      (\<forall>t. db_of_thread g t \<noteq> Some a) \<and>
      (\<forall>b db. dbs g b = Some db \<and> b \<noteq> a \<longrightarrow> m_next db \<noteq> Some a \<and> m_prev db \<noteq> Some a))"

text \<open>A registry with the database of thread 0 at address 0; the same with that database
  stopped; an environment in which \<open>new\<close> returns the address 1 and \<open>pthread_setspecific\<close>
  fails; the registry after \<open>acquire\<close> in thread 1 in that environment; and the latter
  after \<open>flush_cb\<close>.\<close>

definition example_registry :: registry where
  "example_registry =
     \<lparr> dbs = [0 \<mapsto> example_db], s_list = Some 0, db_of_thread = [0 \<mapsto> 0],
       s_global_num_trie_entries = 0, s_global_num_kernel_entries = 0,
       s_global_num_trie_blocks = 0, s_global_num_kernel_blocks = 0,
       s_global_num_dropped = 0, s_global_max_keylen = 0 \<rparr>"

definition stopped_registry :: registry where
  "stopped_registry =
     example_registry \<lparr> dbs := [0 \<mapsto> example_db \<lparr> m_stopped := True \<rparr>] \<rparr>"

definition example_environment :: environment where
  "example_environment =
     \<lparr> new_address = 1, uninitialised_trie_blocks = 0, uninitialised_kernel_blocks = 0,
       pthread_setspecific_ok = False \<rparr>"

definition unspliced_registry :: registry where
  "unspliced_registry = example_registry \<lparr> dbs := [0 \<mapsto> example_db, 1 \<mapsto> example_db] \<rparr>"

definition unspliced_registry_flushed :: registry where
  "unspliced_registry_flushed =
     unspliced_registry
       \<lparr> dbs := [0 \<mapsto> clear example_db, 1 \<mapsto> example_db],
         s_global_num_trie_blocks := 1, s_global_num_kernel_blocks := 1 \<rparr>"

section \<open>Theorems\<close>

subsection \<open>The aggregation kernel\<close>

text \<open>What a sequence of \<open>add\<close> calls leaves in a kernel.\<close>

lemma add_all_count: "count_k (add_all k vs) = count_k k + of_nat (length vs)"
  unfolding add_all_def by (induction vs arbitrary: k) (simp_all add: add_def)

lemma add_all_sum: "sum_k (add_all k vs) = sum_k k + sum_list vs"
  unfolding add_all_def by (induction vs arbitrary: k) (simp_all add: add_def)

lemma add_all_min: "min_k (add_all k vs) = Min (insert (min_k k) (set vs))"
  unfolding add_all_def
proof (induction vs arbitrary: k)
  case Nil
  then show ?case by simp
next
  case (Cons v vs)
  have "Min (insert (min (min_k k) v) (set vs)) = Min (insert (min_k k) (insert v (set vs)))"
    by (metis List.finite_set Min_insert Min_singleton finite.insertI insert_not_empty
        min.assoc min.commute)
  then show ?case using Cons by (simp add: add_def)
qed

lemma add_all_max: "max_k (add_all k vs) = Max (insert (max_k k) (set vs))"
  unfolding add_all_def
proof (induction vs arbitrary: k)
  case Nil
  then show ?case by simp
next
  case (Cons v vs)
  have "Max (insert (max (max_k k) v) (set vs)) = Max (insert (max_k k) (insert v (set vs)))"
    by (metis List.finite_set Max_insert Max_singleton finite.insertI insert_not_empty
        max.assoc max.commute)
  then show ?case using Cons by (simp add: add_def)
qed

lemma numeric_limits_double_min_pos: "0 < numeric_limits_double_min"
  by (simp add: numeric_limits_double_min_def)

text \<open>
  C1. A fresh kernel is to start with \<open>max = -\<infinity>\<close>, so that after \<open>add(v1), ..., add(vn)\<close>
  its \<open>max\<close> is the maximum of the values. The constructor starts \<open>max\<close> at
  \<open>std::numeric_limits<double>::min()\<close>, the smallest positive double: after the single
  call \<open>add(-1.0)\<close> on a fresh kernel \<open>max\<close> is still that positive number and not
  \<open>-1.0\<close>, the maximum of the values added.
\<close>

theorem kernel_max_of_negative_sample:
  "max_k (add_all AggregateKernel_ctor [- 1]) = numeric_limits_double_min \<and>
   max_k (add_all AggregateKernel_ctor [- 1]) \<noteq> Max (set [- 1])"
  using numeric_limits_double_min_pos
  by (simp add: add_all_def add_def AggregateKernel_ctor_def)

subsection \<open>The block allocator\<close>

lemma get_beyond: "MAX_BLOCKS < ident div ENTRIES_PER_BLOCK \<Longrightarrow> get dflt ba ident alloc = Inr (None, ba)"
  by (simp add: get_def)

text \<open>
  C3. For an id whose block index is at or beyond \<open>MAX_BLOCKS\<close>, \<open>get\<close> is to fail without
  touching an element outside the array of block pointers. The guard is
  \<open>block > MAX_BLOCKS\<close>: for the first id of block \<open>MAX_BLOCKS\<close> the source does not return
  but reads \<open>m_blocks[MAX_BLOCKS]\<close>, outside the array, whatever \<open>alloc\<close> is.
\<close>

theorem get_reads_past_block_array:
  "get dflt ba (MAX_BLOCKS * ENTRIES_PER_BLOCK) alloc = Inl OutOfBounds"
  by (simp add: get_def MAX_BLOCKS_def ENTRIES_PER_BLOCK_def)

subsection \<open>find_entry without permission to allocate\<close>

lemma get_noalloc:
  "get d ba i False = Inr (r, ba') \<Longrightarrow> ba' = ba \<and> (\<forall>p. r = Some p \<longrightarrow> p = i \<and> m_blocks ba (i div ENTRIES_PER_BLOCK) \<noteq> None)"
  by (auto simp: get_def Let_def split: if_splits option.splits)

lemma store_blocks:
  "m_blocks ba (p div ENTRIES_PER_BLOCK) \<noteq> None \<Longrightarrow>
   dom (m_blocks (store ba p v)) = dom (m_blocks ba) \<and> m_num_blocks (store ba p v) = m_num_blocks ba"
  by (auto simp: store_def)

lemma child_id_blocks:
  assumes "m_blocks (m_trie db) (e div ENTRIES_PER_BLOCK) \<noteq> None"
    and "child_id db e b = (ident, db')"
  shows "dom (m_blocks (m_trie db')) = dom (m_blocks (m_trie db))"
    and "m_num_blocks (m_trie db') = m_num_blocks (m_trie db)"
    and "m_kernels db' = m_kernels db"
    and "m_aggr_attributes db' = m_aggr_attributes db"
proof -
  note sb = store_blocks[OF assms(1)]
  show "dom (m_blocks (m_trie db')) = dom (m_blocks (m_trie db))"
    using assms(2) by (cases "next_t (deref (m_trie db) e) b = 0") (clarsimp simp: child_id_def Let_def sb)+
  show "m_num_blocks (m_trie db') = m_num_blocks (m_trie db)"
    using assms(2) by (cases "next_t (deref (m_trie db) e) b = 0") (clarsimp simp: child_id_def Let_def sb)+
  show "m_kernels db' = m_kernels db"
    using assms(2) by (cases "next_t (deref (m_trie db) e) b = 0") (clarsimp simp: child_id_def Let_def)+
  show "m_aggr_attributes db' = m_aggr_attributes db"
    using assms(2) by (cases "next_t (deref (m_trie db) e) b = 0") (clarsimp simp: child_id_def Let_def)+
qed

lemma find_loop_noalloc:
  "find_loop db entry key False = Inr (r, db') \<Longrightarrow>
   (\<forall>e. entry = Some e \<longrightarrow> m_blocks (m_trie db) (e div ENTRIES_PER_BLOCK) \<noteq> None) \<Longrightarrow>
   dom (m_blocks (m_trie db')) = dom (m_blocks (m_trie db)) \<and>
   m_num_blocks (m_trie db') = m_num_blocks (m_trie db) \<and>
   m_kernels db' = m_kernels db \<and>
   m_aggr_attributes db' = m_aggr_attributes db \<and>
   (\<forall>e. r = Some e \<longrightarrow> m_blocks (m_trie db) (e div ENTRIES_PER_BLOCK) \<noteq> None)"
proof (induction key arbitrary: db entry)
  case Nil
  then show ?case by (cases entry) auto
next
  case (Cons b key)
  show ?case
  proof (cases entry)
    case None
    with Cons.prems show ?thesis by simp
  next
    case (Some e)
    obtain ident dbm where c: "child_id db e b = (ident, dbm)"
      by (cases "child_id db e b")
    have alloc_e: "m_blocks (m_trie db) (e div ENTRIES_PER_BLOCK) \<noteq> None"
      using Cons.prems(2) Some by simp
    note cb = child_id_blocks[OF alloc_e c]
    from Cons.prems(1) Some c obtain entry' tr where
      g: "get TrieNode_ctor (m_trie dbm) (unat ident) False = Inr (entry', tr)"
      and rest: "find_loop (dbm \<lparr> m_trie := tr \<rparr>) entry' key False = Inr (r, db')"
      by (auto split: sum.splits)
    from get_noalloc[OF g] have tr: "tr = m_trie dbm"
      and e': "\<forall>p. entry' = Some p \<longrightarrow> m_blocks (m_trie dbm) (p div ENTRIES_PER_BLOCK) \<noteq> None"
      by auto
    have dbm: "dbm \<lparr> m_trie := tr \<rparr> = dbm" using tr by simp
    have ih: "dom (m_blocks (m_trie db')) = dom (m_blocks (m_trie dbm)) \<and>
      m_num_blocks (m_trie db') = m_num_blocks (m_trie dbm) \<and>
      m_kernels db' = m_kernels dbm \<and>
      m_aggr_attributes db' = m_aggr_attributes dbm \<and>
      (\<forall>e. r = Some e \<longrightarrow> m_blocks (m_trie dbm) (e div ENTRIES_PER_BLOCK) \<noteq> None)"
      using Cons.IH[of dbm entry'] rest e' dbm by simp
    have same: "\<And>x. (m_blocks (m_trie dbm) x \<noteq> None) = (m_blocks (m_trie db) x \<noteq> None)"
      using cb(1) by (metis domIff)
    show ?thesis using ih cb same by simp
  qed
qed

lemma kernel_loop_noalloc:
  "kernel_loop ks first_id is False = Inr (ok, ks') \<Longrightarrow> ks' = ks"
proof (induction "is" arbitrary: ks)
  case Nil then show ?case by simp
next
  case (Cons i "is")
  then show ?case
    by (auto split: sum.splits option.splits dest!: get_noalloc)
qed

lemma find_entry_noalloc_blocks:
  assumes "find_entry db key False = Inr (r, db')"
  shows "dom (m_blocks (m_trie db')) = dom (m_blocks (m_trie db)) \<and>
         m_num_blocks (m_trie db') = m_num_blocks (m_trie db) \<and>
         dom (m_blocks (m_kernels db')) = dom (m_blocks (m_kernels db)) \<and>
         m_num_blocks (m_kernels db') = m_num_blocks (m_kernels db) \<and>
         (\<forall>e. r = Some e \<longrightarrow> m_blocks (m_trie db) (e div ENTRIES_PER_BLOCK) \<noteq> None)"
proof -
  from assms obtain entry0 tr where
    g: "get TrieNode_ctor (m_trie db) 0 False = Inr (entry0, tr)"
    by (auto simp: find_entry_def kernel_ids_def split: sum.splits)
  from get_noalloc[OF g] have tr: "tr = m_trie db"
    and e0: "\<forall>p. entry0 = Some p \<longrightarrow> m_blocks (m_trie db) (p div ENTRIES_PER_BLOCK) \<noteq> None"
    by auto
  have dbeq: "db \<lparr> m_trie := tr \<rparr> = db" using tr by simp
  from assms g dbeq obtain r1 db1 where
    fl: "find_loop db entry0 key False = Inr (r1, db1)"
    by (auto simp: find_entry_def kernel_ids_def split: sum.splits)
  note inv = find_loop_noalloc[OF fl e0]
  show ?thesis
  proof (cases r1)
    case None
    with assms g dbeq fl have "r = None" "db' = db1"
      by (auto simp: find_entry_def kernel_ids_def)
    with inv show ?thesis by simp
  next
    case (Some e)
    have alloc1: "m_blocks (m_trie db1) (e div ENTRIES_PER_BLOCK) \<noteq> None"
      using inv Some by (metis domIff)
    show ?thesis
    proof (cases "k_id (deref (m_trie db1) e) = 0xFFFFFFFF \<and> length (m_aggr_attributes db1) > 0")
      case False
      with assms g dbeq fl Some have "r = Some e" "db' = db1"
        by (auto simp: find_entry_def kernel_ids_def Let_def split: if_splits)
      with inv Some show ?thesis by simp
    next
      case True
      define first_id where "first_id = (ucast (m_num_kernel_entries db1 + 1) :: 32 word)"
      define db2 where "db2 = db1 \<lparr> m_num_kernel_entries :=
                    m_num_kernel_entries db1 + of_nat (length (m_aggr_attributes db1)) \<rparr>"
      from assms g dbeq fl Some True obtain ok ks where
        kl: "kernel_loop (m_kernels db2) first_id [0..<length (m_aggr_attributes db1)] False = Inr (ok, ks)"
        by (auto simp: find_entry_def kernel_ids_def Let_def first_id_def db2_def split: sum.splits)
      from kernel_loop_noalloc[OF kl] have ks: "ks = m_kernels db1" by (simp add: db2_def)
      have alloc2: "m_blocks (m_trie db2) (e div ENTRIES_PER_BLOCK) \<noteq> None"
        using alloc1 by (simp add: db2_def)
      from assms g dbeq fl Some True kl have
        res: "(r = None \<and> db' = db2 \<lparr> m_kernels := ks \<rparr>) \<or>
         (r = Some e \<and> db' = db2 \<lparr> m_kernels := ks,
                                       m_trie := store (m_trie db2) e
                                         ((deref (m_trie db2) e) \<lparr> k_id := first_id \<rparr>) \<rparr>)"
        by (cases ok) (auto simp: find_entry_def kernel_ids_def Let_def first_id_def db2_def)
      then show ?thesis
      proof
        assume "r = None \<and> db' = db2 \<lparr> m_kernels := ks \<rparr>"
        then show ?thesis using inv ks by (simp add: db2_def)
      next
        assume a: "r = Some e \<and> db' = db2 \<lparr> m_kernels := ks,
                                       m_trie := store (m_trie db2) e
                                         ((deref (m_trie db2) e) \<lparr> k_id := first_id \<rparr>) \<rparr>"
        then show ?thesis using inv ks store_blocks[OF alloc2] Some
          by (simp add: db2_def)
      qed
    qed
  qed
qed

lemma find_entry_no_root:
  "m_blocks (m_trie db) 0 = None \<Longrightarrow> find_entry db key False = Inr (None, db)"
  by (simp add: find_entry_def kernel_ids_def get_def MAX_BLOCKS_def ENTRIES_PER_BLOCK_def)

lemma ctor_example: "AggregateDB_ctor example_statics example_caliper 0 0 = Inr example_db"
  by (simp add: AggregateDB_ctor_def BlockAlloc_ctor_def get_def MAX_BLOCKS_def
      ENTRIES_PER_BLOCK_def example_db_def example_statics_def example_caliper_def)

lemma find_entry_example:
  "find_entry example_db [5] False = Inr (Some 1, example_db_found)"
  by (simp add: find_entry_def kernel_ids_def child_id_def get_def deref_def store_def Let_def
      MAX_BLOCKS_def ENTRIES_PER_BLOCK_def example_db_def example_db_found_def TrieNode_ctor_def
      fun_upd_twist)

lemma child_id_existing:
  "next_t (deref (m_trie db) e) b \<noteq> 0 \<Longrightarrow>
   child_id db e b = (next_t (deref (m_trie db) e) b, db)"
  by (simp add: child_id_def Let_def)

lemma child_id_missing:
  "next_t (deref (m_trie db) e) b = 0 \<Longrightarrow>
   child_id db e b =
     (ucast (m_num_trie_entries db + 1),
      db \<lparr> m_trie := store (m_trie db) e
                         ((deref (m_trie db) e)
                            \<lparr> next_t := (next_t (deref (m_trie db) e))
                                          (b := ucast (m_num_trie_entries db + 1)) \<rparr>),
            m_num_trie_entries := m_num_trie_entries db + 1 \<rparr>)"
  by (simp add: child_id_def Let_def)

lemma find_loop_existing_step:
  assumes "next_t (deref (m_trie db) e) b \<noteq> 0"
    and "get TrieNode_ctor (m_trie db) (unat (next_t (deref (m_trie db) e) b)) False = Inr (entry', tr)"
  shows "find_loop db (Some e) (b # key) False = find_loop db entry' key False"
proof -
  have "tr = m_trie db" using get_noalloc[OF assms(2)] by simp
  then show ?thesis
    using assms by (simp add: child_id_existing)
qed

text \<open>A walk that ends at an id whose block is not allocated: \<open>find_entry\<close> has followed
  child ids that exist, and changed nothing.\<close>

lemma walk_from_missing_block:
  "walk_from (m_trie db) entry key = Inr MissingBlock \<Longrightarrow>
   find_loop db entry key False = Inr (None, db)"
proof (induction key arbitrary: entry)
  case Nil
  then show ?case by (cases entry) simp_all
next
  case (Cons b key)
  show ?case
  proof (cases entry)
    case None
    then show ?thesis by simp
  next
    case (Some e)
    have nz: "next_t (deref (m_trie db) e) b \<noteq> 0"
      using Cons.prems Some by (auto split: if_splits)
    with Cons.prems Some obtain entry' tr where
      g: "get TrieNode_ctor (m_trie db) (unat (next_t (deref (m_trie db) e) b)) False = Inr (entry', tr)"
      and w: "walk_from (m_trie db) entry' key = Inr MissingBlock"
      by (auto split: sum.splits)
    from find_loop_existing_step[OF nz g] Cons.IH[OF w] Some show ?thesis by simp
  qed
qed

text \<open>A walk that ends at an entry without a child for the next key byte: up to there
  \<open>find_entry\<close> has changed nothing, and the entry lies in an allocated block.\<close>

lemma walk_from_missing_child:
  "walk_from (m_trie db) entry key = Inr (MissingChild e b rest) \<Longrightarrow>
   (\<forall>p. entry = Some p \<longrightarrow> m_blocks (m_trie db) (p div ENTRIES_PER_BLOCK) \<noteq> None) \<Longrightarrow>
   find_loop db entry key False = find_loop db (Some e) (b # rest) False \<and>
   next_t (deref (m_trie db) e) b = 0 \<and>
   m_blocks (m_trie db) (e div ENTRIES_PER_BLOCK) \<noteq> None"
proof (induction key arbitrary: entry)
  case Nil
  then show ?case by (cases entry) simp_all
next
  case (Cons c key)
  show ?case
  proof (cases entry)
    case None
    with Cons.prems show ?thesis by simp
  next
    case (Some p)
    show ?thesis
    proof (cases "next_t (deref (m_trie db) p) c = 0")
      case True
      with Cons.prems Some show ?thesis by simp
    next
      case False
      with Cons.prems(1) Some obtain entry' tr where
        g: "get TrieNode_ctor (m_trie db) (unat (next_t (deref (m_trie db) p) c)) False = Inr (entry', tr)"
        and w: "walk_from (m_trie db) entry' key = Inr (MissingChild e b rest)"
        by (auto split: sum.splits)
      have v: "\<forall>q. entry' = Some q \<longrightarrow> m_blocks (m_trie db) (q div ENTRIES_PER_BLOCK) \<noteq> None"
        using get_noalloc[OF g] by auto
      from find_loop_existing_step[OF False g] Cons.IH[OF w v] Some show ?thesis by simp
    qed
  qed
qed

lemma find_loop_missing_step:
  assumes "child_id db e b = (ident, db1)"
  shows "find_loop db (Some e) (b # rest) False =
     (case get TrieNode_ctor (m_trie db1) (unat ident) False of
        Inl err \<Rightarrow> Inl err
      | Inr (entry', _) \<Rightarrow> find_loop db1 entry' rest False)"
proof (cases "get TrieNode_ctor (m_trie db1) (unat ident) False")
  case (Inl err)
  then show ?thesis by (simp add: assms)
next
  case (Inr res)
  obtain entry' tr where res: "res = (entry', tr)" by (cases res)
  have "tr = m_trie db1" using get_noalloc[of _ "m_trie db1"] Inr res by blast
  then show ?thesis using Inr res by (simp add: assms)
qed

lemma get_None_after_store:
  assumes "get d tr i False = Inr (None, tr)"
    and "m_blocks tr (e div ENTRIES_PER_BLOCK) \<noteq> None"
  shows "get d (store tr e v) i False = Inr (None, store tr e v)"
  using assms
  by (auto simp: get_def store_def Let_def split: if_splits option.splits)

lemma find_entry_walk:
  "find_entry db key False =
     (case get TrieNode_ctor (m_trie db) 0 False of
        Inl err \<Rightarrow> Inl err
      | Inr (entry0, _) \<Rightarrow>
          (case find_loop db entry0 key False of
             Inl err \<Rightarrow> Inl err
           | Inr (entry, db1) \<Rightarrow> kernel_ids db1 entry False))"
proof (cases "get TrieNode_ctor (m_trie db) 0 False")
  case (Inl err)
  then show ?thesis by (simp add: find_entry_def)
next
  case (Inr res)
  obtain entry0 tr where res: "res = (entry0, tr)" by (cases res)
  have "tr = m_trie db" using get_noalloc[of _ "m_trie db"] Inr res by blast
  then show ?thesis using Inr res by (simp add: find_entry_def)
qed

lemma find_entry_missing_block:
  assumes "walk (m_trie db) key = Inr MissingBlock"
  shows "find_entry db key False = Inr (None, db)"
proof -
  from assms obtain entry0 tr where
    g: "get TrieNode_ctor (m_trie db) 0 False = Inr (entry0, tr)"
    and w: "walk_from (m_trie db) entry0 key = Inr MissingBlock"
    by (auto simp: walk_def split: sum.splits)
  from walk_from_missing_block[OF w] g show ?thesis
    by (simp add: find_entry_walk kernel_ids_def)
qed

text \<open>A walk that reaches the entry for the key: \<open>find_entry\<close> has changed nothing on
  the way, and goes on to the kernel ids of that entry.\<close>

lemma walk_from_reached:
  "walk_from (m_trie db) entry key = Inr (Reached e) \<Longrightarrow>
   find_loop db entry key False = Inr (Some e, db)"
proof (induction key arbitrary: entry)
  case Nil
  then show ?case by (cases entry) simp_all
next
  case (Cons b key)
  show ?case
  proof (cases entry)
    case None
    with Cons.prems show ?thesis by simp
  next
    case (Some p)
    have nz: "next_t (deref (m_trie db) p) b \<noteq> 0"
      using Cons.prems Some by (auto split: if_splits)
    with Cons.prems Some obtain entry' tr where
      g: "get TrieNode_ctor (m_trie db) (unat (next_t (deref (m_trie db) p) b)) False = Inr (entry', tr)"
      and w: "walk_from (m_trie db) entry' key = Inr (Reached e)"
      by (auto split: sum.splits)
    from find_loop_existing_step[OF nz g] Cons.IH[OF w] Some show ?thesis by simp
  qed
qed

lemma find_entry_reached:
  assumes "walk (m_trie db) key = Inr (Reached e)"
  shows "find_entry db key False = kernel_ids db (Some e) False"
proof -
  from assms obtain entry0 tr where
    g: "get TrieNode_ctor (m_trie db) 0 False = Inr (entry0, tr)"
    and w: "walk_from (m_trie db) entry0 key = Inr (Reached e)"
    by (auto simp: walk_def split: sum.splits)
  from walk_from_reached[OF w] g show ?thesis
    by (simp add: find_entry_walk)
qed

lemma find_entry_missing_child:
  assumes "walk (m_trie db) key = Inr (MissingChild e b rest)"
    and "child_id db e b = (ident, db1)"
  shows "ident = ucast (m_num_trie_entries db + 1)"
    and "db1 = db \<lparr> m_trie := store (m_trie db) e
                       ((deref (m_trie db) e)
                          \<lparr> next_t := (next_t (deref (m_trie db) e)) (b := ident) \<rparr>),
                     m_num_trie_entries := m_num_trie_entries db + 1 \<rparr>"
    and "find_entry db key False =
           (case get TrieNode_ctor (m_trie db1) (unat ident) False of
              Inl err \<Rightarrow> Inl err
            | Inr (entry', _) \<Rightarrow>
                (case find_loop db1 entry' rest False of
                   Inl err \<Rightarrow> Inl err
                 | Inr (entry, db2) \<Rightarrow> kernel_ids db2 entry False))"
    and "get TrieNode_ctor (m_trie db) (unat ident) False = Inr (None, m_trie db) \<Longrightarrow>
         find_entry db key False = Inr (None, db1)"
proof -
  from assms(1) obtain entry0 tr where
    g: "get TrieNode_ctor (m_trie db) 0 False = Inr (entry0, tr)"
    and w: "walk_from (m_trie db) entry0 key = Inr (MissingChild e b rest)"
    by (auto simp: walk_def split: sum.splits)
  have v: "\<forall>p. entry0 = Some p \<longrightarrow> m_blocks (m_trie db) (p div ENTRIES_PER_BLOCK) \<noteq> None"
    using get_noalloc[OF g] by auto
  from walk_from_missing_child[OF w v] have
    fl: "find_loop db entry0 key False = find_loop db (Some e) (b # rest) False"
    and z: "next_t (deref (m_trie db) e) b = 0"
    and ve: "m_blocks (m_trie db) (e div ENTRIES_PER_BLOCK) \<noteq> None"
    by simp_all
  from child_id_missing[OF z] assms(2) show
    i: "ident = ucast (m_num_trie_entries db + 1)"
    by simp
  from child_id_missing[OF z] assms(2) i show
    d: "db1 = db \<lparr> m_trie := store (m_trie db) e
                       ((deref (m_trie db) e)
                          \<lparr> next_t := (next_t (deref (m_trie db) e)) (b := ident) \<rparr>),
                     m_num_trie_entries := m_num_trie_entries db + 1 \<rparr>"
    by simp
  note step = find_loop_missing_step[OF assms(2), of rest]
  have a: "find_entry db key False =
       (case find_loop db entry0 key False of
          Inl err \<Rightarrow> Inl err
        | Inr (entry, db1) \<Rightarrow> kernel_ids db1 entry False)"
    by (simp add: find_entry_walk g)
  show main: "find_entry db key False =
           (case get TrieNode_ctor (m_trie db1) (unat ident) False of
              Inl err \<Rightarrow> Inl err
            | Inr (entry', _) \<Rightarrow>
                (case find_loop db1 entry' rest False of
                   Inl err \<Rightarrow> Inl err
                 | Inr (entry, db2) \<Rightarrow> kernel_ids db2 entry False))"
    unfolding a fl step by (simp split: sum.splits prod.splits)
  assume n: "get TrieNode_ctor (m_trie db) (unat ident) False = Inr (None, m_trie db)"
  have t1: "m_trie db1 = store (m_trie db) e
                       ((deref (m_trie db) e)
                          \<lparr> next_t := (next_t (deref (m_trie db) e)) (b := ident) \<rparr>)"
    by (subst d) simp
  have "get TrieNode_ctor (m_trie db1) (unat ident) False = Inr (None, m_trie db1)"
    unfolding t1 by (rule get_None_after_store[OF n ve])
  then show "find_entry db key False = Inr (None, db1)"
    unfolding main by (simp add: kernel_ids_def)
qed

lemma walk_dangling: "walk (m_trie dangling_db) [5] = Inr MissingBlock"
  by (simp add: walk_def get_def deref_def dangling_db_def example_db_def TrieNode_ctor_def
      MAX_BLOCKS_def ENTRIES_PER_BLOCK_def)

lemma walk_full_block: "walk (m_trie full_block_db) [5] = Inr (MissingChild 0 5 [])"
  by (simp add: walk_def get_def deref_def full_block_db_def example_db_def TrieNode_ctor_def
      MAX_BLOCKS_def ENTRIES_PER_BLOCK_def)

lemma get_full_block:
  "get TrieNode_ctor (m_trie full_block_db) (unat (2048 :: 32 word)) False
   = Inr (None, m_trie full_block_db)"
  by (simp add: get_def full_block_db_def example_db_def MAX_BLOCKS_def ENTRIES_PER_BLOCK_def)

lemma child_id_full_block:
  "child_id full_block_db 0 5 = (2048, full_block_db_assigned)"
  by (simp add: child_id_def Let_def full_block_db_def full_block_db_assigned_def example_db_def
      store_def deref_def TrieNode_ctor_def ENTRIES_PER_BLOCK_def)

text \<open>
  C2, as the claim states it: with \<open>alloc = false\<close>, a key byte whose child id is 0 makes
  \<open>find_entry\<close> return not-found and leave the database unchanged. On the database the
  constructor builds, the root has no child for the byte \<open>5\<close>; \<open>find_entry\<close> for the key
  \<open>[5]\<close> with \<open>alloc = false\<close> assigns the child id 1, counts one trie entry and one
  kernel entry, and returns the entry 1, which lies in the block allocated already.
\<close>

theorem find_entry_noalloc_counterexample:
  "next_t (deref (m_trie example_db) 0) 5 = 0 \<and>
   find_entry example_db [5] False = Inr (Some 1, example_db_found) \<and>
   next_t (deref (m_trie example_db_found) 0) 5 = 1 \<and>
   m_num_trie_entries example_db_found = m_num_trie_entries example_db + 1 \<and>
   m_num_kernel_entries example_db_found = m_num_kernel_entries example_db + 1"
  using find_entry_example
  by (simp add: deref_def example_db_def example_db_found_def TrieNode_ctor_def
      ENTRIES_PER_BLOCK_def)

text \<open>
  C2, amended. \<open>find_entry\<close> with \<open>alloc = false\<close> allocates no block: when it returns,
  the set of allocated blocks and the block count of the trie pool and of the kernel pool
  are what they were before the call, and an entry it returns lies in a trie block that
  was allocated before the call. A step into a trie block that is not allocated returns
  not-found:
  \<^item> when the block of the root is not allocated, or the walk along the child ids that
    exist reaches an id for which \<open>get\<close> returns null, \<open>find_entry\<close> returns not-found and
    leaves the database unchanged;
  \<^item> when the walk reaches an entry \<open>e\<close> whose child id for the next key byte \<open>b\<close> is 0,
    that child id is set to the fresh id \<open>++m_num_trie_entries\<close>, which changes nothing
    else in the database, and the call goes on with the fresh id as with a child id that
    exists, over the rest of the key; when \<open>get\<close> returns null for the fresh id,
    \<open>find_entry\<close> returns not-found and the database differs from the one before the
    call in that child id and that counter only.
\<close>

theorem find_entry_noalloc:
  "(find_entry db key False = Inr (r, db') \<longrightarrow>
      dom (m_blocks (m_trie db')) = dom (m_blocks (m_trie db)) \<and>
      m_num_blocks (m_trie db') = m_num_blocks (m_trie db) \<and>
      dom (m_blocks (m_kernels db')) = dom (m_blocks (m_kernels db)) \<and>
      m_num_blocks (m_kernels db') = m_num_blocks (m_kernels db) \<and>
      (\<forall>e. r = Some e \<longrightarrow> m_blocks (m_trie db) (e div ENTRIES_PER_BLOCK) \<noteq> None)) \<and>
   (m_blocks (m_trie db) 0 = None \<longrightarrow> find_entry db key False = Inr (None, db)) \<and>
   (walk (m_trie db) key = Inr MissingBlock \<longrightarrow> find_entry db key False = Inr (None, db)) \<and>
   (walk (m_trie db) key = Inr (MissingChild e b rest) \<and> child_id db e b = (ident, db1) \<longrightarrow>
      ident = ucast (m_num_trie_entries db + 1) \<and>
      db1 = db \<lparr> m_trie := store (m_trie db) e
                   ((deref (m_trie db) e)
                      \<lparr> next_t := (next_t (deref (m_trie db) e)) (b := ident) \<rparr>),
                 m_num_trie_entries := m_num_trie_entries db + 1 \<rparr> \<and>
      find_entry db key False =
        (case get TrieNode_ctor (m_trie db1) (unat ident) False of
           Inl err \<Rightarrow> Inl err
         | Inr (entry', _) \<Rightarrow>
             (case find_loop db1 entry' rest False of
                Inl err \<Rightarrow> Inl err
              | Inr (entry, db2) \<Rightarrow> kernel_ids db2 entry False)) \<and>
      (get TrieNode_ctor (m_trie db) (unat ident) False = Inr (None, m_trie db) \<longrightarrow>
         find_entry db key False = Inr (None, db1)))"
proof -
  have a: "find_entry db key False = Inr (r, db') \<longrightarrow>
      dom (m_blocks (m_trie db')) = dom (m_blocks (m_trie db)) \<and>
      m_num_blocks (m_trie db') = m_num_blocks (m_trie db) \<and>
      dom (m_blocks (m_kernels db')) = dom (m_blocks (m_kernels db)) \<and>
      m_num_blocks (m_kernels db') = m_num_blocks (m_kernels db) \<and>
      (\<forall>e. r = Some e \<longrightarrow> m_blocks (m_trie db) (e div ENTRIES_PER_BLOCK) \<noteq> None)"
    using find_entry_noalloc_blocks [of db key r db'] by blast
  have b: "m_blocks (m_trie db) 0 = None \<longrightarrow> find_entry db key False = Inr (None, db)"
    using find_entry_no_root [of db key] by blast
  have c: "walk (m_trie db) key = Inr MissingBlock \<longrightarrow> find_entry db key False = Inr (None, db)"
    using find_entry_missing_block [of db key] by blast
  have d: "walk (m_trie db) key = Inr (MissingChild e b rest) \<and> child_id db e b = (ident, db1) \<longrightarrow>
      ident = ucast (m_num_trie_entries db + 1) \<and>
      db1 = db \<lparr> m_trie := store (m_trie db) e
                   ((deref (m_trie db) e)
                      \<lparr> next_t := (next_t (deref (m_trie db) e)) (b := ident) \<rparr>),
                 m_num_trie_entries := m_num_trie_entries db + 1 \<rparr> \<and>
      find_entry db key False =
        (case get TrieNode_ctor (m_trie db1) (unat ident) False of
           Inl err \<Rightarrow> Inl err
         | Inr (entry', _) \<Rightarrow>
             (case find_loop db1 entry' rest False of
                Inl err \<Rightarrow> Inl err
              | Inr (entry, db2) \<Rightarrow> kernel_ids db2 entry False)) \<and>
      (get TrieNode_ctor (m_trie db) (unat ident) False = Inr (None, m_trie db) \<longrightarrow>
         find_entry db key False = Inr (None, db1))"
  proof (intro impI, elim conjE)
    assume w: "walk (m_trie db) key = Inr (MissingChild e b rest)"
      and ch: "child_id db e b = (ident, db1)"
    note m = find_entry_missing_child [OF w ch]
    from m(1) m(2) m(3) m(4) show "ident = ucast (m_num_trie_entries db + 1) \<and>
      db1 = db \<lparr> m_trie := store (m_trie db) e
                   ((deref (m_trie db) e)
                      \<lparr> next_t := (next_t (deref (m_trie db) e)) (b := ident) \<rparr>),
                 m_num_trie_entries := m_num_trie_entries db + 1 \<rparr> \<and>
      find_entry db key False =
        (case get TrieNode_ctor (m_trie db1) (unat ident) False of
           Inl err \<Rightarrow> Inl err
         | Inr (entry', _) \<Rightarrow>
             (case find_loop db1 entry' rest False of
                Inl err \<Rightarrow> Inl err
              | Inr (entry, db2) \<Rightarrow> kernel_ids db2 entry False)) \<and>
      (get TrieNode_ctor (m_trie db) (unat ident) False = Inr (None, m_trie db) \<longrightarrow>
         find_entry db key False = Inr (None, db1))"
      by (intro conjI impI)
  qed
  from a b c d show ?thesis by (intro conjI)
qed

theorem find_entry_noalloc_witness:
  "find_entry example_db [5] False = Inr (Some 1, example_db_found) \<and>
   dom (m_blocks (m_trie example_db_found)) = dom (m_blocks (m_trie example_db)) \<and>
   m_num_blocks (m_trie example_db_found) = m_num_blocks (m_trie example_db) \<and>
   dom (m_blocks (m_kernels example_db_found)) = dom (m_blocks (m_kernels example_db)) \<and>
   m_num_blocks (m_kernels example_db_found) = m_num_blocks (m_kernels example_db) \<and>
   m_blocks (m_trie example_db) (1 div ENTRIES_PER_BLOCK) \<noteq> None \<and>
   m_blocks (m_trie (example_db \<lparr> m_trie := clear_blocks (m_trie example_db) \<rparr>)) 0 = None \<and>
   find_entry (example_db \<lparr> m_trie := clear_blocks (m_trie example_db) \<rparr>) [5] False =
     Inr (None, example_db \<lparr> m_trie := clear_blocks (m_trie example_db) \<rparr>) \<and>
   walk (m_trie dangling_db) [5] = Inr MissingBlock \<and>
   find_entry dangling_db [5] False = Inr (None, dangling_db) \<and>
   walk (m_trie full_block_db) [5] = Inr (MissingChild 0 5 []) \<and>
   child_id full_block_db 0 5 = (2048, full_block_db_assigned) \<and>
   get TrieNode_ctor (m_trie full_block_db) (unat (2048 :: 32 word)) False =
     Inr (None, m_trie full_block_db) \<and>
   find_entry full_block_db [5] False = Inr (None, full_block_db_assigned) \<and>
   next_t (deref (m_trie full_block_db_assigned) 0) 5 = 2048 \<and>
   m_num_trie_entries full_block_db_assigned = m_num_trie_entries full_block_db + 1"
proof -
  have h: "find_entry example_db [5] False = Inr (Some 1, example_db_found)"
    by (rule find_entry_example)
  have n: "m_blocks (m_trie (example_db \<lparr> m_trie := clear_blocks (m_trie example_db) \<rparr>)) 0 = None"
    by (simp add: clear_blocks_def)
  from find_entry_noalloc [of example_db "[5]" "Some 1" example_db_found] h
  have p1: "dom (m_blocks (m_trie example_db_found)) = dom (m_blocks (m_trie example_db))"
    and p2: "m_num_blocks (m_trie example_db_found) = m_num_blocks (m_trie example_db)"
    and p3: "dom (m_blocks (m_kernels example_db_found)) = dom (m_blocks (m_kernels example_db))"
    and p4: "m_num_blocks (m_kernels example_db_found) = m_num_blocks (m_kernels example_db)"
    and p5: "m_blocks (m_trie example_db) (1 div ENTRIES_PER_BLOCK) \<noteq> None"
    by simp_all
  from find_entry_noalloc
    [of "example_db \<lparr> m_trie := clear_blocks (m_trie example_db) \<rparr>" "[5]"] n
  have p6: "find_entry (example_db \<lparr> m_trie := clear_blocks (m_trie example_db) \<rparr>) [5] False =
     Inr (None, example_db \<lparr> m_trie := clear_blocks (m_trie example_db) \<rparr>)"
    by blast
  from find_entry_noalloc [of dangling_db "[5]"] walk_dangling
  have p7: "find_entry dangling_db [5] False = Inr (None, dangling_db)"
    by blast
  from find_entry_noalloc [of full_block_db "[5]" _ _ 0 5 "[]" 2048 full_block_db_assigned]
    walk_full_block child_id_full_block get_full_block
  have p8: "find_entry full_block_db [5] False = Inr (None, full_block_db_assigned)"
    by blast
  have p9: "next_t (deref (m_trie full_block_db_assigned) 0) 5 = 2048"
    by (simp add: deref_def full_block_db_assigned_def ENTRIES_PER_BLOCK_def)
  have p10: "m_num_trie_entries full_block_db_assigned = m_num_trie_entries full_block_db + 1"
    by (simp add: full_block_db_assigned_def full_block_db_def)
  from h p1 p2 p3 p4 p5 n p6 walk_dangling p7 walk_full_block child_id_full_block
    get_full_block p8 p9 p10
  show ?thesis by (intro conjI)
qed

subsection \<open>The key of a snapshot\<close>

lemma vlenc_u64_not_Nil: "vlenc_u64 v \<noteq> []"
  by (subst vlenc_u64.simps) simp

lemma vlenc_u64_length_pos: "1 \<le> length (vlenc_u64 v)"
  using vlenc_u64_not_Nil [of v] by (cases "vlenc_u64 v") simp_all

lemma write_buf_Inr:
  "write_buf buf bytes = Inr r \<Longrightarrow> r = buf @ bytes \<and> length r \<le> MAX_KEYLEN"
  by (auto simp: write_buf_def split: if_splits)

text \<open>A key that was assembled without an access outside a buffer has between 1 and
  \<open>MAX_KEYLEN\<close> bytes.\<close>

lemma assemble_key_length:
  assumes "assemble_key n node_key bitfield imm_key = Inr key"
  shows "1 \<le> length key \<and> length key \<le> MAX_KEYLEN"
proof -
  from assms obtain key1 key2 where
    k1: "write_buf [] (vlenc_u64 (n * 2 + (if bitfield \<noteq> 0 then 1 else 0))) = Inr key1"
    and k2: "write_buf key1 node_key = Inr key2"
    by (auto simp: assemble_key_def split: sum.splits)
  from write_buf_Inr[OF k1]
    vlenc_u64_length_pos [of "n * 2 + (if bitfield \<noteq> 0 then 1 else 0)"]
  have l1: "1 \<le> length key1"
    by simp
  from write_buf_Inr[OF k2] l1 have l2: "1 \<le> length key2 \<and> length key2 \<le> MAX_KEYLEN"
    by auto
  show ?thesis
  proof (cases "bitfield \<noteq> 0")
    case False
    with assms k1 k2 l2 show ?thesis by (simp add: assemble_key_def)
  next
    case True
    with assms k1 k2 obtain key3 where
      k3: "write_buf key2 (vlenc_u64 bitfield) = Inr key3"
      and k4: "write_buf key3 imm_key = Inr key"
      by (auto simp: assemble_key_def split: sum.splits)
    from write_buf_Inr[OF k3] write_buf_Inr[OF k4] l2 show ?thesis by auto
  qed
qed

lemma build_key_length:
  "build_key st c db snapshot = Inr key \<Longrightarrow> 1 \<le> length key \<and> length key \<le> MAX_KEYLEN"
  by (auto simp: build_key_def Let_def split: sum.splits dest: assemble_key_length)

lemma overflow_build_key:
  "build_key overflow_statics example_caliper example_db overflow_snapshot = Inl OutOfBounds"
  by code_simp

text \<open>
  C4. For every non-empty snapshot the bytes of the key are to stay within the first
  \<open>MAX_KEYLEN\<close> bytes of the buffers. The value of an immediate key entry is written to
  \<open>imm_key + imm_key_len\<close> before its length is checked: with thirteen key attributes
  whose immediate values are varints of 10 bytes, twelve values are kept (120 bytes), and
  the thirteenth is written to \<open>imm_key[120 .. 130)\<close>, two bytes past the array of
  \<open>MAX_KEYLEN = 128\<close> bytes.
\<close>

theorem key_assembly_writes_past_buffer:
  "length (node_entries overflow_snapshot) + length (immediate_entries overflow_snapshot) \<noteq> 0 \<and>
   build_key overflow_statics example_caliper example_db overflow_snapshot = Inl OutOfBounds \<and>
   process_snapshot overflow_statics example_caliper example_db overflow_snapshot
     = Inl OutOfBounds"
  by (simp add: process_snapshot_def overflow_build_key) (simp add: overflow_snapshot_def)

subsection \<open>The immediate part of the key\<close>

lemma imm_entries_inv:
  "imm_entries nkl k kid es (bf, ik) = Inr (bf', ik') \<Longrightarrow>
   (bf \<noteq> 0 \<longrightarrow> nkl + length ik + length (vlenc_u64 bf) + 1 < MAX_KEYLEN) \<Longrightarrow>
   (bf' \<noteq> 0 \<longrightarrow> nkl + length ik' + length (vlenc_u64 bf') + 1 < MAX_KEYLEN)"
proof (induction es arbitrary: bf ik)
  case Nil
  then show ?case by simp
next
  case (Cons e es)
  obtain a v where e: "e = (a, v)" by (cases e)
  show ?case
  proof (cases "kid = a")
    case False
    with Cons e show ?thesis by simp
  next
    case True
    from Cons.prems(1) e True obtain w b where
      w: "write_buf ik (vlenc_u64 (data v)) = Inr w" and b: "bit_k k = Inr b"
      by (auto split: sum.splits)
    have weq: "w = ik @ vlenc_u64 (data v)"
      using w by (auto simp: write_buf_def split: if_splits)
    show ?thesis
    proof (cases "MAX_KEYLEN \<le> nkl + length ik + length (vlenc_u64 (data v))
                                    + length (vlenc_u64 (bf OR b)) + 1")
      case True
      with Cons.prems e \<open>kid = a\<close> w b show ?thesis by simp
    next
      case False
      with Cons.prems(1) e \<open>kid = a\<close> w b have
        rest: "imm_entries nkl k kid es (bf OR b, w) = Inr (bf', ik')" by simp
      have "nkl + length w + length (vlenc_u64 (bf OR b)) + 1 < MAX_KEYLEN"
        using False weq by simp
      with Cons.IH[OF rest] show ?thesis by simp
    qed
  qed
qed

lemma imm_attributes_inv:
  "imm_attributes nkl k kids es (bf, ik) = Inr (bf', ik') \<Longrightarrow>
   (bf \<noteq> 0 \<longrightarrow> nkl + length ik + length (vlenc_u64 bf) + 1 < MAX_KEYLEN) \<Longrightarrow>
   (bf' \<noteq> 0 \<longrightarrow> nkl + length ik' + length (vlenc_u64 bf') + 1 < MAX_KEYLEN)"
proof (induction kids arbitrary: k bf ik)
  case Nil
  then show ?case by simp
next
  case (Cons kid kids)
  from Cons.prems(1) obtain bf1 ik1 where
    one: "imm_entries nkl k kid es (bf, ik) = Inr (bf1, ik1)"
    and rest: "imm_attributes nkl (Suc k) kids es (bf1, ik1) = Inr (bf', ik')"
    by (auto split: sum.splits)
  from imm_entries_inv[OF one Cons.prems(2)] Cons.IH[OF rest] show ?case by blast
qed


lemma skipping_example:
  "imm_attributes 0 0 (s_key_attribute_ids skipping_statics)
     (immediate_entries skipping_snapshot) (0, [])
   = Inr (0x5FFF, thirteen_wide @ [5])"
  by code_simp

lemma skipping_example_rejected:
  "imm_entries 0 13 14 (immediate_entries skipping_snapshot) (0x1FFF, thirteen_wide)
   = Inr (0x1FFF, thirteen_wide)"
  by code_simp

lemma skipping_example_before:
  "imm_attributes 0 0 (take 13 (s_key_attribute_ids skipping_statics))
     (immediate_entries skipping_snapshot) (0, [])
   = Inr (0x1FFF, thirteen_wide)"
  by code_simp

text \<open>
  C5, as the claim states it: once a candidate fails the length check, it and all
  further immediate entries, for all remaining key attributes, are left out of the key.
  With fifteen key attributes, the first thirteen values (9 bytes each) are kept; the
  value of the fourteenth attribute (9 bytes) fails the check and is left out; the value
  of the fifteenth attribute (1 byte) is then checked, passes, and is kept: bit 14 of the
  bitfield is set and the byte is appended, while bit 13 is not set.
\<close>

theorem immediates_after_rejection_counterexample:
  "imm_attributes 0 0 (take 13 (s_key_attribute_ids skipping_statics))
     (immediate_entries skipping_snapshot) (0, [])
     = Inr (0x1FFF, thirteen_wide) \<and>
   imm_entries 0 13 14 (immediate_entries skipping_snapshot) (0x1FFF, thirteen_wide)
     = Inr (0x1FFF, thirteen_wide) \<and>
   imm_attributes 0 0 (s_key_attribute_ids skipping_statics)
     (immediate_entries skipping_snapshot) (0, [])
     = Inr (0x5FFF, thirteen_wide @ [5]) \<and>
   (0x5FFF :: 64 word) AND push_bit 14 1 \<noteq> 0 \<and>
   (0x5FFF :: 64 word) AND push_bit 13 1 = 0"
  using skipping_example skipping_example_rejected skipping_example_before
  by simp

text \<open>
  C5, amended. Each candidate is length-checked before it is kept: a matching entry
  whose value, with the node part, the immediate part so far, the bitfield with its bit
  and one more byte, reaches \<open>MAX_KEYLEN\<close> is not kept, and the remaining entries of the
  snapshot are not tried for that key attribute; the loop goes on with the next key
  attribute from the unchanged bitfield and immediate part, so a later key attribute
  whose value passes the check is kept. Whatever is kept passes the check: when
  the loops are done with a non-zero bitfield, node part, immediate part, bitfield and
  one more byte stay below \<open>MAX_KEYLEN\<close>.
\<close>

theorem immediates_length_checked:
  "(kid = a \<and> write_buf imm_key (vlenc_u64 (data v)) = Inr w \<and> bit_k k = Inr b \<and>
    MAX_KEYLEN \<le> nkl + length imm_key + length (vlenc_u64 (data v))
                    + length (vlenc_u64 (bitfield OR b)) + 1 \<longrightarrow>
      imm_attributes nkl k (kid # kids) ((a, v) # es) (bitfield, imm_key) =
      imm_attributes nkl (Suc k) kids ((a, v) # es) (bitfield, imm_key)) \<and>
   (imm_attributes nkl 0 kids' es' (0, []) = Inr (bitfield', imm_key') \<and> bitfield' \<noteq> 0 \<longrightarrow>
      nkl + length imm_key' + length (vlenc_u64 bitfield') + 1 < MAX_KEYLEN)"
proof (intro conjI impI)
  assume "kid = a \<and> write_buf imm_key (vlenc_u64 (data v)) = Inr w \<and> bit_k k = Inr b \<and>
    MAX_KEYLEN \<le> nkl + length imm_key + length (vlenc_u64 (data v))
                    + length (vlenc_u64 (bitfield OR b)) + 1"
  then show "imm_attributes nkl k (kid # kids) ((a, v) # es) (bitfield, imm_key) =
      imm_attributes nkl (Suc k) kids ((a, v) # es) (bitfield, imm_key)"
    by simp
next
  assume "imm_attributes nkl 0 kids' es' (0, []) = Inr (bitfield', imm_key') \<and> bitfield' \<noteq> 0"
  then show "nkl + length imm_key' + length (vlenc_u64 bitfield') + 1 < MAX_KEYLEN"
    using imm_attributes_inv [of nkl 0 kids' es' 0 "[]" bitfield' imm_key'] by simp
qed

theorem immediates_length_checked_witness:
  "write_buf thirteen_wide (vlenc_u64 (data wide)) = Inr (thirteen_wide @ vlenc_u64 (data wide)) \<and>
   bit_k 13 = Inr 0x2000 \<and>
   MAX_KEYLEN \<le> 0 + length thirteen_wide + length (vlenc_u64 (data wide))
                   + length (vlenc_u64 (0x1FFF OR 0x2000)) + 1 \<and>
   imm_attributes 0 13 [14, 15] [(14, wide), (15, narrow)] (0x1FFF, thirteen_wide) =
     imm_attributes 0 14 [15] [(14, wide), (15, narrow)] (0x1FFF, thirteen_wide) \<and>
   imm_attributes 0 0 (s_key_attribute_ids skipping_statics)
     (immediate_entries skipping_snapshot) (0, [])
     = Inr (0x5FFF, thirteen_wide @ [5]) \<and>
   0 + length (thirteen_wide @ [5]) + length (vlenc_u64 0x5FFF) + 1 < MAX_KEYLEN"
proof -
  have w: "write_buf thirteen_wide (vlenc_u64 (data wide)) = Inr (thirteen_wide @ vlenc_u64 (data wide))"
    by code_simp
  have b: "bit_k 13 = Inr 0x2000"
    by (simp add: bit_k_def)
  have l: "MAX_KEYLEN \<le> 0 + length thirteen_wide + length (vlenc_u64 (data wide))
                   + length (vlenc_u64 (0x1FFF OR 0x2000)) + 1"
    by code_simp
  have n: "(0x5FFF :: 64 word) \<noteq> 0"
    by simp
  from immediates_length_checked
         [of 14 14 thirteen_wide wide "thirteen_wide @ vlenc_u64 (data wide)" 13 "0x2000" 0
             "0x1FFF" "[15]" "[(15, narrow)]"
             "s_key_attribute_ids skipping_statics" "immediate_entries skipping_snapshot"
             "0x5FFF" "thirteen_wide @ [5]"]
    w b l n skipping_example
  show ?thesis by simp
qed

subsection \<open>The key of a snapshot without key attributes\<close>

lemma key_node_ids_keyless:
  "valid_key_attribute_ids st = [] \<Longrightarrow>
   key_node_ids st c db snapshot = sort (map node_id (node_entries snapshot))"
  by (simp add: key_node_ids_def)

text \<open>
  C6. When no key attributes are configured, the ids of the snapshot's nodes are sorted
  before they are encoded: two snapshots whose node lists are permutations of each other
  and whose immediate entries are the same get the same key (and the same outcome, if an
  access outside a buffer happens).
\<close>

theorem keyless_key_canonical:
  assumes "s_key_attribute_ids st = []"
    and "mset (node_entries s1) = mset (node_entries s2)"
    and "immediate_entries s1 = immediate_entries s2"
  shows "key_node_ids st c db s1 = sort (map node_id (node_entries s1)) \<and>
         build_key st c db s1 = build_key st c db s2"
proof -
  have v: "valid_key_attribute_ids st = []"
    using assms(1) by (simp add: valid_key_attribute_ids_def)
  have "mset (map node_id (node_entries s1)) = mset (map node_id (node_entries s2))"
    using assms(2) by (metis mset_map)
  then have "sort (map node_id (node_entries s1)) = sort (map node_id (node_entries s2))"
    by (metis properties_for_sort sorted_sort mset_sort)
  then have k: "key_node_ids st c db s1 = key_node_ids st c db s2"
    by (simp add: key_node_ids_keyless[OF v])
  have "build_key st c db s1 = build_key st c db s2"
    unfolding build_key_def assms(3) k by (rule refl)
  then show ?thesis
    by (simp add: key_node_ids_keyless[OF v])
qed

theorem keyless_key_canonical_witness:
  "s_key_attribute_ids example_statics = [] \<and>
   mset (node_entries snapshot_3_5) = mset (node_entries snapshot_5_3) \<and>
   immediate_entries snapshot_3_5 = immediate_entries snapshot_5_3 \<and>
   build_key example_statics example_caliper example_db snapshot_3_5 = Inr [4, 3, 5] \<and>
   build_key example_statics example_caliper example_db snapshot_5_3 = Inr [4, 3, 5]"
proof -
  have k: "s_key_attribute_ids example_statics = []"
    by (simp add: example_statics_def)
  have m: "mset (node_entries snapshot_3_5) = mset (node_entries snapshot_5_3)"
    by (simp add: snapshot_3_5_def snapshot_5_3_def)
  have i: "immediate_entries snapshot_3_5 = immediate_entries snapshot_5_3"
    by (simp add: snapshot_3_5_def snapshot_5_3_def)
  have b: "build_key example_statics example_caliper example_db snapshot_3_5 = Inr [4, 3, 5]"
    by code_simp
  from keyless_key_canonical [OF k m i, of example_caliper example_db] k m i b
  show ?thesis by simp
qed

subsection \<open>Flush\<close>

text \<open>
  C7. The second of two flushes in a row writes no snapshot record. \<open>flush\<close> itself
  does not change the database; between the two flushes the database is cleared, as
  \<open>flush_cb\<close> does after each flush. On a cleared database the root of the trie is
  absent, so \<open>flush\<close> returns without writing, whatever the database was and whatever the
  bound on the depth is; this holds for \<open>clear\<close> and for the state \<open>flush_cb\<close> leaves a
  database in.
\<close>

theorem flush_after_clear:
  "flush depth st c (clear db) = Some (Inr []) \<and>
   flush depth st c (flushed_db db) = Some (Inr [])"
  by (simp add: flush_def flushed_db_def clear_def clear_blocks_def get_def MAX_BLOCKS_def
      ENTRIES_PER_BLOCK_def)

subsection \<open>The aggregate entries of a snapshot record\<close>

lemma get_Some_id:
  "get d ba i alloc = Inr (Some p, ba') \<Longrightarrow> p = i"
  by (auto simp: get_def Let_def split: if_splits option.splits)

lemma get_Inl:
  "get d ba i alloc = Inl err \<Longrightarrow> i div ENTRIES_PER_BLOCK = MAX_BLOCKS"
  by (auto simp: get_def Let_def split: if_splits option.splits)

lemma write_statistics_closed:
  assumes "\<forall>a \<in> set xs. unat (kid + of_nat a) div ENTRIES_PER_BLOCK \<noteq> MAX_BLOCKS"
    and "\<forall>a \<in> set xs. a < length (s_stats_attributes st)"
  shows "write_statistics st db kid xs =
     Inr (concat (map (\<lambda>a. statistics_entries (s_stats_attributes st ! a) (kernel_of db kid a))
             (filter (\<lambda>a. count_k (kernel_of db kid a) \<noteq> 0)
                (takeWhile (kernel_fetched db kid) xs))))"
  using assms
proof (induction xs)
  case Nil
  then show ?case by simp
next
  case (Cons a xs)
  have ih: "write_statistics st db kid xs =
     Inr (concat (map (\<lambda>a. statistics_entries (s_stats_attributes st ! a) (kernel_of db kid a))
             (filter (\<lambda>a. count_k (kernel_of db kid a) \<noteq> 0)
                (takeWhile (kernel_fetched db kid) xs))))"
    using Cons by simp
  have len: "a < length (s_stats_attributes st)"
    using Cons.prems(2) by simp
  show ?case
  proof (cases "get AggregateKernel_ctor (m_kernels db) (unat (kid + of_nat a)) False")
    case (Inl err)
    from get_Inl[OF Inl] Cons.prems(1) show ?thesis by simp
  next
    case (Inr res)
    obtain r ks where res: "res = (r, ks)" by (cases res)
    show ?thesis
    proof (cases r)
      case None
      have "\<not> kernel_fetched db kid a"
        using Inr res None by (simp add: kernel_fetched_def)
      then show ?thesis using Inr res None by simp
    next
      case (Some k)
      have k: "k = unat (kid + of_nat a)"
        using Inr res Some get_Some_id by fastforce
      have f: "kernel_fetched db kid a"
        using Inr res Some by (simp add: kernel_fetched_def)
      show ?thesis
        using Inr res Some f k len ih by (simp add: kernel_of_def)
    qed
  qed
qed

lemma attributes_written_length:
  "length (attributes_written db kid) \<le> SNAP_MAX div 3"
proof -
  have "length (attributes_written db kid)
      \<le> length (takeWhile (kernel_fetched db kid) [0..<min (length (m_aggr_attributes db)) (SNAP_MAX div 3)])"
    unfolding attributes_written_def by (rule length_filter_le)
  also have "\<dots> \<le> length [0..<min (length (m_aggr_attributes db)) (SNAP_MAX div 3)]"
    by (rule length_takeWhile_le)
  finally show ?thesis by simp
qed

lemma takeWhile_upt:
  "\<exists>k\<le>m. takeWhile P [0..<m] = [0..<k] \<and> (k < m \<longrightarrow> \<not> P k)"
proof (induction m)
  case 0
  then show ?case by simp
next
  case (Suc m)
  then obtain k where k: "k \<le> m" "takeWhile P [0..<m] = [0..<k]" "k < m \<longrightarrow> \<not> P k"
    by blast
  show ?case
  proof (cases "k < m")
    case True
    then have "k \<in> set [0..<m]" "\<not> P k" using k by simp_all
    then have "takeWhile P ([0..<m] @ [m]) = takeWhile P [0..<m]"
      by (rule takeWhile_append1)
    with k True show ?thesis by (intro exI[of _ k]) simp
  next
    case False
    then have km: "k = m" using k by simp
    have all: "\<forall>x \<in> set [0..<m]. P x"
      using k(2) km set_takeWhileD[of _ P "[0..<m]"] by (metis)
    have tw: "takeWhile P ([0..<m] @ [m]) = [0..<m] @ takeWhile P [m]"
      by (rule takeWhile_append2) (use all in blast)
    show ?thesis
    proof (cases "P m")
      case True
      with tw show ?thesis by (intro exI[of _ "Suc m"]) simp
    next
      case False
      with tw show ?thesis by (intro exI[of _ m]) simp
    qed
  qed
qed

lemma attributes_written_below:
  assumes "a < min (length (m_aggr_attributes db)) (SNAP_MAX div 3)"
    and "\<not> kernel_fetched db kid a" and "a' \<in> set (attributes_written db kid)"
  shows "a' < a"
proof -
  obtain k where k: "takeWhile (kernel_fetched db kid)
       [0..<min (length (m_aggr_attributes db)) (SNAP_MAX div 3)] = [0..<k]"
    using takeWhile_upt by blast
  have "\<forall>x \<in> set [0..<k]. kernel_fetched db kid x"
    using k set_takeWhileD by metis
  then have "\<not> a < k" using assms(2) by auto
  moreover have "a' < k" using assms(3) k by (simp add: attributes_written_def)
  ultimately show ?thesis by simp
qed

lemma unat_small: "a < 1000 \<Longrightarrow> unat (of_nat a :: 32 word) = a"
  by (simp add: unat_of_nat)

lemma fetched_block0:
  assumes "m_blocks (m_kernels db) 0 \<noteq> None" and "unat (kid + of_nat a) < 1024"
  shows "kernel_fetched db kid a"
  using assms
  by (auto simp: kernel_fetched_def get_def ENTRIES_PER_BLOCK_def MAX_BLOCKS_def)

lemma not_fetched_block1:
  assumes "m_blocks (m_kernels db) 1 = None" and "unat (kid + of_nat a) = 1024"
  shows "\<not> kernel_fetched db kid a"
  using assms
  by (auto simp: kernel_fetched_def get_def ENTRIES_PER_BLOCK_def MAX_BLOCKS_def)

lemma five_written: "attributes_written five_db (k_id five_entry) = [0, 2]"
proof -
  have k: "k_id five_entry = 1021"
    by (simp add: five_entry_def)
  have b0: "m_blocks (m_kernels five_db) 0 \<noteq> None" and b1: "m_blocks (m_kernels five_db) 1 = None"
    by (simp_all add: five_db_def)
  have f: "kernel_fetched five_db 1021 0" "kernel_fetched five_db 1021 1"
    "kernel_fetched five_db 1021 2"
    by (rule fetched_block0[OF b0], simp)+
  have nf: "\<not> kernel_fetched five_db 1021 3"
    by (rule not_fetched_block1[OF b1]) simp
  have u: "[0..<min (length (m_aggr_attributes five_db)) (SNAP_MAX div 3)] = [0, 1, 2, 3, 4]"
    by (simp add: five_db_def SNAP_MAX_def upt_rec)
  have c: "count_k (kernel_of five_db 1021 0) \<noteq> 0" "count_k (kernel_of five_db 1021 1) = 0"
    "count_k (kernel_of five_db 1021 2) \<noteq> 0"
    by (simp_all add: kernel_of_def deref_def five_db_def AggregateKernel_ctor_def
        ENTRIES_PER_BLOCK_def)
  show ?thesis
    unfolding attributes_written_def k u using f nf c by simp
qed

lemma thirty_written: "attributes_written thirty_db (k_id thirty_entry) = [0..<26]"
proof -
  have k: "k_id thirty_entry = 1"
    by (simp add: thirty_entry_def)
  have b0: "m_blocks (m_kernels thirty_db) 0 \<noteq> None"
    by (simp add: thirty_db_def)
  have u: "[0..<min (length (m_aggr_attributes thirty_db)) (SNAP_MAX div 3)] = [0..<26]"
    by (simp add: thirty_db_def SNAP_MAX_def)
  have un: "unat (1 + of_nat a :: 32 word) = 1 + a" if "a < 26" for a
    using that by (simp add: unat_word_ariths unat_of_nat)
  have f: "kernel_fetched thirty_db 1 a" if "a < 26" for a
    by (rule fetched_block0[OF b0]) (use that un in simp)
  have c: "count_k (kernel_of thirty_db 1 a) \<noteq> 0" if "a < 26" for a
    using that un
    by (simp add: kernel_of_def deref_def thirty_db_def ENTRIES_PER_BLOCK_def)
  have t: "takeWhile (kernel_fetched thirty_db 1) [0..<26] = [0..<26]"
    using f by (intro takeWhile_eq_all_conv[THEN iffD2]) auto
  have fl: "filter (\<lambda>a. count_k (kernel_of thirty_db 1 a) \<noteq> 0) [0..<26] = [0..<26]"
    using c by (intro filter_True) auto
  show ?thesis
    unfolding attributes_written_def k u t fl by (rule refl)
qed

lemma five_written_entries:
  "concat (map (\<lambda>a. statistics_entries (s_stats_attributes five_statics ! a)
                         (kernel_of five_db (k_id five_entry) a))
             [0, 2])
   @ [ImmEntry (attr_id (s_count_attribute five_statics)) (Uint (ucast (count_t five_entry)))]
   = [ImmEntry 101 (Double 10), ImmEntry 102 (Double 30), ImmEntry 103 (Double 60),
      ImmEntry 101 (Double 1), ImmEntry 102 (Double 2), ImmEntry 103 (Double 3),
      ImmEntry 100 (Uint 4)]"
  by (simp add: statistics_entries_def kernel_of_def deref_def five_statics_def five_db_def
      five_entry_def example_statics_def example_db_def TrieNode_ctor_def ENTRIES_PER_BLOCK_def)

text \<open>
  C9. The aggregate entries \<open>write_aggregated_snapshot\<close> appends to a record, when no
  kernel id of the entry falls into the block \<open>MAX_BLOCKS\<close> (where \<open>get\<close> reads past the
  block array) and there are statistics attributes for the aggregated attributes looked
  at: the call returns, and appends the \<open>min\<close>, \<open>max\<close> and \<open>sum\<close> entries of the attributes in
  \<open>attributes_written\<close>, in their order, and then the count entry, whatever the kernels
  are. The attributes written are those with a non-zero count among the first
  \<open>min n 26\<close> attributes before the first one whose kernel cannot be fetched: at most 26,
  and all of them before every attribute whose kernel cannot be fetched. The whole record
  is the decoded key entries followed by these entries.
\<close>

theorem written_snapshot_statistics:
  assumes "\<forall>a < min (length (m_aggr_attributes db)) 26.
             unat (k_id entry + of_nat a) div ENTRIES_PER_BLOCK \<noteq> MAX_BLOCKS"
    and "min (length (m_aggr_attributes db)) 26 \<le> length (s_stats_attributes st)"
  shows "write_aggregate_entries st db entry =
           Inr (concat (map (\<lambda>a. statistics_entries (s_stats_attributes st ! a)
                                   (kernel_of db (k_id entry) a))
                          (attributes_written db (k_id entry)))
                @ [ImmEntry (attr_id (s_count_attribute st)) (Uint (ucast (count_t entry)))]) \<and>
         write_aggregated_snapshot st c db key entry =
           (case decode_key st c (key @ [0]) of
              Inl err \<Rightarrow> Inl err
            | Inr keys \<Rightarrow>
                Inr (keys
                     @ concat (map (\<lambda>a. statistics_entries (s_stats_attributes st ! a)
                                          (kernel_of db (k_id entry) a))
                                 (attributes_written db (k_id entry)))
                     @ [ImmEntry (attr_id (s_count_attribute st))
                          (Uint (ucast (count_t entry)))])) \<and>
         attributes_written db (k_id entry) =
           filter (\<lambda>a. count_k (kernel_of db (k_id entry) a) \<noteq> 0)
             (takeWhile (kernel_fetched db (k_id entry))
                [0..<min (length (m_aggr_attributes db)) 26]) \<and>
         length (attributes_written db (k_id entry)) \<le> 26 \<and>
         (\<forall>a < min (length (m_aggr_attributes db)) 26.
            \<not> kernel_fetched db (k_id entry) a \<longrightarrow>
            (\<forall>a' \<in> set (attributes_written db (k_id entry)). a' < a))"
proof -
  have n: "SNAP_MAX div 3 = 26"
    by (simp add: SNAP_MAX_def)
  have ws: "write_statistics st db (k_id entry) [0..<min (length (m_aggr_attributes db)) 26] =
     Inr (concat (map (\<lambda>a. statistics_entries (s_stats_attributes st ! a)
                             (kernel_of db (k_id entry) a))
             (attributes_written db (k_id entry))))"
    unfolding attributes_written_def n
  proof (rule write_statistics_closed)
    show "\<forall>a\<in>set [0..<min (length (m_aggr_attributes db)) 26].
       unat (k_id entry + word_of_nat a) div ENTRIES_PER_BLOCK \<noteq> MAX_BLOCKS"
      using assms(1) by simp
    show "\<forall>a\<in>set [0..<min (length (m_aggr_attributes db)) 26].
       a < length (s_stats_attributes st)"
      using assms(2) by auto
  qed
  have e: "write_aggregate_entries st db entry =
           Inr (concat (map (\<lambda>a. statistics_entries (s_stats_attributes st ! a)
                                   (kernel_of db (k_id entry) a))
                          (attributes_written db (k_id entry)))
                @ [ImmEntry (attr_id (s_count_attribute st)) (Uint (ucast (count_t entry)))])"
    unfolding write_aggregate_entries_def n ws by simp
  have s: "write_aggregated_snapshot st c db key entry =
           (case decode_key st c (key @ [0]) of
              Inl err \<Rightarrow> Inl err
            | Inr keys \<Rightarrow>
                Inr (keys
                     @ concat (map (\<lambda>a. statistics_entries (s_stats_attributes st ! a)
                                          (kernel_of db (k_id entry) a))
                                 (attributes_written db (k_id entry)))
                     @ [ImmEntry (attr_id (s_count_attribute st))
                          (Uint (ucast (count_t entry)))]))"
    unfolding write_aggregated_snapshot_def e by (simp split: sum.splits)
  have l: "length (attributes_written db (k_id entry)) \<le> 26"
    using attributes_written_length [of db "k_id entry"] n by simp
  have b: "\<forall>a < min (length (m_aggr_attributes db)) 26.
            \<not> kernel_fetched db (k_id entry) a \<longrightarrow>
            (\<forall>a' \<in> set (attributes_written db (k_id entry)). a' < a)"
  proof (intro allI impI ballI)
    fix a a'
    assume "a < min (length (m_aggr_attributes db)) 26"
      and "\<not> kernel_fetched db (k_id entry) a"
      and "a' \<in> set (attributes_written db (k_id entry))"
    then show "a' < a"
      using attributes_written_below [of a db "k_id entry" a'] n by simp
  qed
  have d: "attributes_written db (k_id entry) =
           filter (\<lambda>a. count_k (kernel_of db (k_id entry) a) \<noteq> 0)
             (takeWhile (kernel_fetched db (k_id entry))
                [0..<min (length (m_aggr_attributes db)) 26])"
    unfolding attributes_written_def n by (rule refl)
  from e s d l b show ?thesis
    by (intro conjI)
qed

lemma five_premises:
  "\<forall>a < min (length (m_aggr_attributes five_db)) 26.
     unat (k_id five_entry + of_nat a) div ENTRIES_PER_BLOCK \<noteq> MAX_BLOCKS"
  "min (length (m_aggr_attributes five_db)) 26 \<le> length (s_stats_attributes five_statics)"
proof -
  have "unat (k_id five_entry + of_nat a) div ENTRIES_PER_BLOCK \<noteq> MAX_BLOCKS" if "a < 5" for a
  proof -
    have "unat (1021 + of_nat a :: 32 word) = 1021 + a"
      using that by (simp add: unat_word_ariths unat_of_nat)
    then show ?thesis
      using that by (simp add: five_entry_def ENTRIES_PER_BLOCK_def MAX_BLOCKS_def)
  qed
  then show "\<forall>a < min (length (m_aggr_attributes five_db)) 26.
     unat (k_id five_entry + of_nat a) div ENTRIES_PER_BLOCK \<noteq> MAX_BLOCKS"
    by (simp add: five_db_def)
  show "min (length (m_aggr_attributes five_db)) 26 \<le> length (s_stats_attributes five_statics)"
    by (simp add: five_db_def five_statics_def)
qed

lemma thirty_premises:
  "\<forall>a < min (length (m_aggr_attributes thirty_db)) 26.
     unat (k_id thirty_entry + of_nat a) div ENTRIES_PER_BLOCK \<noteq> MAX_BLOCKS"
  "min (length (m_aggr_attributes thirty_db)) 26 \<le> length (s_stats_attributes thirty_statics)"
proof -
  have "unat (k_id thirty_entry + of_nat a) div ENTRIES_PER_BLOCK \<noteq> MAX_BLOCKS" if "a < 26" for a
  proof -
    have "unat (1 + of_nat a :: 32 word) = 1 + a"
      using that by (simp add: unat_word_ariths unat_of_nat)
    then show ?thesis
      using that by (simp add: thirty_entry_def ENTRIES_PER_BLOCK_def MAX_BLOCKS_def)
  qed
  then show "\<forall>a < min (length (m_aggr_attributes thirty_db)) 26.
     unat (k_id thirty_entry + of_nat a) div ENTRIES_PER_BLOCK \<noteq> MAX_BLOCKS"
    by (simp add: thirty_db_def)
  show "min (length (m_aggr_attributes thirty_db)) 26 \<le> length (s_stats_attributes thirty_statics)"
    by (simp add: thirty_db_def thirty_statics_def)
qed

lemma five_not_fetched: "\<not> kernel_fetched five_db (k_id five_entry) 3"
proof -
  have b1: "m_blocks (m_kernels five_db) 1 = None"
    by (simp add: five_db_def)
  show ?thesis
    by (rule not_fetched_block1[OF b1]) (simp add: five_entry_def)
qed

lemma thirty_written_entries:
  "concat (map (\<lambda>a. statistics_entries (s_stats_attributes thirty_statics ! a)
                         (kernel_of thirty_db (k_id thirty_entry) a))
             [0..<26])
   = concat (replicate 26
       [ImmEntry 101 (Double 1), ImmEntry 102 (Double 1), ImmEntry 103 (Double 1)])"
proof -
  have "statistics_entries (s_stats_attributes thirty_statics ! a)
                         (kernel_of thirty_db (k_id thirty_entry) a)
        = [ImmEntry 101 (Double 1), ImmEntry 102 (Double 1), ImmEntry 103 (Double 1)]"
    if "a < 26" for a
  proof -
    have u: "unat (1 + of_nat a :: 32 word) = 1 + a"
      using that by (simp add: unat_word_ariths unat_of_nat)
    have k: "kernel_of thirty_db (k_id thirty_entry) a
           = \<lparr> min_k = 1, max_k = 1, sum_k = 1, count_k = 1 \<rparr>"
      using that
      by (simp add: kernel_of_def deref_def thirty_entry_def u thirty_db_def ENTRIES_PER_BLOCK_def)
    have s: "s_stats_attributes thirty_statics ! a = hd (s_stats_attributes example_statics)"
      using that by (simp add: thirty_statics_def)
    show ?thesis
      unfolding k s by (simp add: statistics_entries_def example_statics_def)
  qed
  then have "map (\<lambda>a. statistics_entries (s_stats_attributes thirty_statics ! a)
                         (kernel_of thirty_db (k_id thirty_entry) a)) [0..<26]
     = map (\<lambda>a. [ImmEntry 101 (Double 1), ImmEntry 102 (Double 1), ImmEntry 103 (Double 1)]) [0..<26]"
    by (intro map_cong) auto
  then show ?thesis
    by (simp add: map_replicate_const)
qed

theorem written_snapshot_statistics_witness:
  "write_aggregate_entries five_statics five_db five_entry =
     Inr [ImmEntry 101 (Double 10), ImmEntry 102 (Double 30), ImmEntry 103 (Double 60),
          ImmEntry 101 (Double 1), ImmEntry 102 (Double 2), ImmEntry 103 (Double 3),
          ImmEntry 100 (Uint 4)] \<and>
   attributes_written five_db (k_id five_entry) = [0, 2] \<and>
   \<not> kernel_fetched five_db (k_id five_entry) 3 \<and>
   count_k (kernel_of five_db (k_id five_entry) 1) = 0 \<and>
   write_aggregate_entries thirty_statics thirty_db thirty_entry =
     Inr (concat (replicate 26
            [ImmEntry 101 (Double 1), ImmEntry 102 (Double 1), ImmEntry 103 (Double 1)])
          @ [ImmEntry 100 (Uint 1)]) \<and>
   length (m_aggr_attributes thirty_db) = 30"
proof -
  have c1: "count_k (kernel_of five_db (k_id five_entry) 1) = 0"
    by (simp add: five_entry_def kernel_of_def deref_def five_db_def AggregateKernel_ctor_def
        ENTRIES_PER_BLOCK_def)
  have c30: "ImmEntry (attr_id (s_count_attribute thirty_statics))
               (Uint (ucast (count_t thirty_entry))) = ImmEntry 100 (Uint 1)"
    by (simp add: thirty_statics_def example_statics_def thirty_entry_def)
  have l30: "length (m_aggr_attributes thirty_db) = 30"
    by (simp add: thirty_db_def)
  note t5 = written_snapshot_statistics [OF five_premises, of example_caliper "[]", THEN conjunct1]
  have w5: "write_aggregate_entries five_statics five_db five_entry =
     Inr [ImmEntry 101 (Double 10), ImmEntry 102 (Double 30), ImmEntry 103 (Double 60),
          ImmEntry 101 (Double 1), ImmEntry 102 (Double 2), ImmEntry 103 (Double 3),
          ImmEntry 100 (Uint 4)]"
    using t5 unfolding five_written five_written_entries .
  note t30 = written_snapshot_statistics [OF thirty_premises, of example_caliper "[]", THEN conjunct1]
  have w30: "write_aggregate_entries thirty_statics thirty_db thirty_entry =
     Inr (concat (replicate 26
            [ImmEntry 101 (Double 1), ImmEntry 102 (Double 1), ImmEntry 103 (Double 1)])
          @ [ImmEntry 100 (Uint 1)])"
    using t30 unfolding thirty_written thirty_written_entries c30 .
  show ?thesis
    using w5 five_written five_not_fetched c1 w30 l30 by (intro conjI)
qed

subsection \<open>A snapshot for a stopped database\<close>

text \<open>
  C8, as the claim states it: a snapshot for a stopped database is dropped and the
  database's \<open>num_dropped\<close> counter goes up by one. For the stopped database of thread 0
  the call leaves \<open>m_num_dropped\<close> of the database at 0; the counter that goes up is the
  global \<open>s_global_num_dropped\<close>.
\<close>

theorem stopped_snapshot_dropped_counterexample:
  "process_snapshot_cb example_statics example_caliper example_environment 0 snapshot_3_5
     stopped_registry = Inr (stopped_registry \<lparr> s_global_num_dropped := 1 \<rparr>) \<and>
   map_option m_num_dropped (dbs stopped_registry 0) = Some 0 \<and>
   map_option m_num_dropped (dbs (stopped_registry \<lparr> s_global_num_dropped := 1 \<rparr>) 0) = Some 0"
  by (simp add: process_snapshot_cb_def acquire_def stopped_registry_def example_registry_def
      example_db_def)

text \<open>
  C8, amended: when a snapshot arrives in a thread whose database is stopped, the
  snapshot is dropped: no database changes at all (no trie entry, no kernel update, no
  count, and \<open>m_num_dropped\<close> of the database stays), and the global counter
  \<open>s_global_num_dropped\<close> goes up by one.
\<close>

theorem stopped_snapshot_dropped:
  assumes "db_of_thread g t = Some a" and "dbs g a = Some db" and "m_stopped db"
  shows "process_snapshot_cb st c env t snapshot g =
           Inr (g \<lparr> s_global_num_dropped := s_global_num_dropped g + 1 \<rparr>)"
  using assms by (simp add: process_snapshot_cb_def acquire_def)

theorem stopped_snapshot_dropped_witness:
  "db_of_thread stopped_registry 0 = Some 0 \<and>
   dbs stopped_registry 0 = Some (example_db \<lparr> m_stopped := True \<rparr>) \<and>
   m_stopped (example_db \<lparr> m_stopped := True \<rparr>) \<and>
   process_snapshot_cb example_statics example_caliper example_environment 0 snapshot_3_5
     stopped_registry =
     Inr (stopped_registry \<lparr> s_global_num_dropped := s_global_num_dropped stopped_registry + 1 \<rparr>)"
proof -
  have t: "db_of_thread stopped_registry 0 = Some 0"
    by (simp add: stopped_registry_def example_registry_def)
  have d: "dbs stopped_registry 0 = Some (example_db \<lparr> m_stopped := True \<rparr>)"
    by (simp add: stopped_registry_def)
  have m: "m_stopped (example_db \<lparr> m_stopped := True \<rparr>)"
    by simp
  from stopped_snapshot_dropped [OF t d m, of example_statics example_caliper
         example_environment snapshot_3_5] t d m
  show ?thesis by simp
qed

subsection \<open>A database whose thread slot could not be set\<close>

lemma AggregateDB_ctor_Inr:
  "\<exists>db. AggregateDB_ctor st c nt nk = Inr db \<and> \<not> m_stopped db \<and> m_next db = None \<and> m_prev db = None"
  by (simp add: AggregateDB_ctor_def get_def BlockAlloc_ctor_def MAX_BLOCKS_def ENTRIES_PER_BLOCK_def)

lemma unref_upd:
  assumes "unreferenced a g" "b \<noteq> a" "m_next db \<noteq> Some a" "m_prev db \<noteq> Some a"
  shows "unreferenced a (g \<lparr> dbs := (dbs g)(b \<mapsto> db) \<rparr>)"
  using assms by (auto simp: unreferenced_def)

lemma unref_del:
  assumes "unreferenced a g"
  shows "unreferenced a (g \<lparr> dbs := (dbs g)(b := None) \<rparr>)"
  using assms by (auto simp: unreferenced_def)

lemma unref_next:
  assumes "unreferenced a g" "dbs g b = Some db" "b \<noteq> a"
  shows "m_next db \<noteq> Some a" "m_prev db \<noteq> Some a"
  using assms by (auto simp: unreferenced_def)

lemma unlink_unref:
  assumes u: "unreferenced a g" and ba: "b \<noteq> a" and ul: "unlink b g = Inr g'"
  shows "unreferenced a g' \<and> dbs g' a = dbs g a \<and> s_list g' = s_list g"
proof -
  from ul obtain db where db: "dbs g b = Some db"
    by (auto simp: unlink_def split: option.splits)
  note nx = unref_next[OF u db ba]
  define r1 where "r1 = (case m_next db of
                   None \<Rightarrow> Inr g
                 | Some n \<Rightarrow>
                     (case dbs g n of
                        None \<Rightarrow> Inl InvalidPointer
                      | Some ndb \<Rightarrow> Inr (g \<lparr> dbs := (dbs g)(n \<mapsto> ndb \<lparr> m_prev := m_prev db \<rparr>) \<rparr>)))"
  from ul db obtain g1 where g1: "r1 = Inr g1"
    and r2: "(case m_prev db of
                  None \<Rightarrow> Inr g1
                | Some p \<Rightarrow>
                    (case dbs g1 p of
                       None \<Rightarrow> Inl InvalidPointer
                     | Some pdb \<Rightarrow>
                         Inr (g1 \<lparr> dbs := (dbs g1)(p \<mapsto> pdb \<lparr> m_next := m_next db \<rparr>) \<rparr>))) = Inr g'"
    by (auto simp: unlink_def r1_def split: sum.splits)
  have s1: "unreferenced a g1 \<and> dbs g1 a = dbs g a \<and> s_list g1 = s_list g"
  proof (cases "m_next db")
    case None
    with g1 u show ?thesis by (simp add: r1_def)
  next
    case (Some n)
    with g1 obtain ndb where ndb: "dbs g n = Some ndb"
      and g1eq: "g1 = g \<lparr> dbs := (dbs g)(n \<mapsto> ndb \<lparr> m_prev := m_prev db \<rparr>) \<rparr>"
      by (auto simp: r1_def split: option.splits)
    have na: "n \<noteq> a" using nx(1) Some by simp
    have "m_next ndb \<noteq> Some a" using unref_next(1)[OF u ndb na] .
    then have "unreferenced a g1"
      unfolding g1eq using nx(2) by (intro unref_upd[OF u na]) simp_all
    then show ?thesis using na by (simp add: g1eq)
  qed
  show ?thesis
  proof (cases "m_prev db")
    case None
    with r2 s1 show ?thesis by simp
  next
    case (Some p)
    with r2 obtain pdb where pdb: "dbs g1 p = Some pdb"
      and geq: "g' = g1 \<lparr> dbs := (dbs g1)(p \<mapsto> pdb \<lparr> m_next := m_next db \<rparr>) \<rparr>"
      by (auto split: option.splits)
    have pa: "p \<noteq> a" using nx(2) Some by simp
    have u1: "unreferenced a g1" using s1 by simp
    have "m_prev pdb \<noteq> Some a" using unref_next(2)[OF u1 pdb pa] .
    then have "unreferenced a g'"
      unfolding geq using nx(1) by (intro unref_upd[OF u1 pa]) simp_all
    then show ?thesis using pa s1 by (simp add: geq)
  qed
qed

lemma unref_add_statistics:
  "unreferenced a (add_statistics db g) = unreferenced a g"
  by (simp add: unreferenced_def add_statistics_def)

lemma remove_retired_unref:
  assumes u: "unreferenced a g" and ba: "b \<noteq> a" and nx: "m_next db \<noteq> Some a"
    and rr: "remove_retired b db g = Inr g'"
  shows "unreferenced a g' \<and> dbs g' a = dbs g a"
proof (cases "m_retired db")
  case False
  with rr u show ?thesis by (simp add: remove_retired_def)
next
  case True
  with rr obtain g2 where ul: "unlink b g = Inr g2"
    and geq: "g' = (if s_list g2 = Some b then g2 \<lparr> s_list := m_next db \<rparr> else g2)
                  \<lparr> dbs := (dbs g2)(b := None) \<rparr>"
    by (auto simp: remove_retired_def split: sum.splits)
  from unlink_unref[OF u ba ul] have u2: "unreferenced a g2" and d2: "dbs g2 a = dbs g a"
    by simp_all
  have u3: "unreferenced a (if s_list g2 = Some b then g2 \<lparr> s_list := m_next db \<rparr> else g2)"
    using u2 nx by (simp add: unreferenced_def)
  have deq: "dbs (if s_list g2 = Some b then g2 \<lparr> s_list := m_next db \<rparr> else g2) = dbs g2"
    by simp
  have "unreferenced a g'"
    unfolding geq using unref_del[OF u3, of b] by (simp add: deq)
  then show ?thesis using d2 ba by (simp add: geq)
qed

lemma flush_loop_unref:
  assumes "flush_loop n depth st c p g = Some (Inr (visited, written, g'))"
    and "unreferenced a g" and "p \<noteq> Some a"
  shows "a \<notin> set visited \<and> dbs g' a = dbs g a \<and> unreferenced a g'"
  using assms
proof (induction n arbitrary: p g visited written)
  case 0
  then show ?case by (cases p) auto
next
  case (Suc n)
  show ?case
  proof (cases p)
    case None
    with Suc.prems show ?thesis by simp
  next
    case (Some b)
    have ba: "b \<noteq> a" using Suc.prems(3) Some by simp
    from Suc.prems(1) Some obtain db where db: "dbs g b = Some db"
      by (auto split: option.splits)
    define g1 where "g1 = (add_statistics db g) \<lparr> dbs := (dbs g)(b \<mapsto> flushed_db db) \<rparr>"
    have links: "m_next (flushed_db db) = m_next db" "m_prev (flushed_db db) = m_prev db"
      by (simp_all add: flushed_db_def clear_def)
    note nx = unref_next[OF Suc.prems(2) db ba]
    have g1alt: "g1 = (add_statistics db g) \<lparr> dbs := (dbs (add_statistics db g))(b \<mapsto> flushed_db db) \<rparr>"
      by (simp add: g1_def add_statistics_def)
    have u1: "unreferenced a g1"
      unfolding g1alt
      by (rule unref_upd) (simp_all add: unref_add_statistics Suc.prems(2) ba links nx)
    have d1: "dbs g1 a = dbs g a" using ba by (simp add: g1_def)
    from Suc.prems(1) Some db obtain own g3 visited' below where
      r: "remove_retired b (flushed_db db) g1 = Inr g3"
      and rest: "flush_loop n depth st c (m_next (flushed_db db)) g3 = Some (Inr (visited', below, g'))"
      and vis: "visited = b # visited'"
      by (auto simp: g1_def split: option.splits sum.splits)
    have nx1: "m_next (flushed_db db) \<noteq> Some a" using links nx by simp
    from remove_retired_unref[OF u1 ba nx1 r] have u3: "unreferenced a g3" and d3: "dbs g3 a = dbs g1 a"
      by simp_all
    from Suc.IH[OF rest u3 nx1] vis ba d3 d1 show ?thesis by simp
  qed
qed

lemma flush_cb_unref:
  assumes "flush_cb n depth st c g = Some (Inr (visited, written, g'))"
    and "unreferenced a g"
  shows "a \<notin> set visited \<and> dbs g' a = dbs g a \<and> unreferenced a g'"
  using flush_loop_unref[OF assms(1)[unfolded flush_cb_def] assms(2)] assms(2)
  by (simp add: unreferenced_def)

lemma unref_self:
  "unreferenced a (g \<lparr> dbs := (dbs g)(a \<mapsto> db) \<rparr>) = unreferenced a g"
  by (auto simp: unreferenced_def)

lemma child_id_links:
  "child_id db e b = (i, db') \<Longrightarrow> m_next db' = m_next db \<and> m_prev db' = m_prev db"
  by (auto simp: child_id_def Let_def split: if_splits)

lemma find_loop_links:
  "find_loop db entry key alloc = Inr (r, db') \<Longrightarrow> m_next db' = m_next db \<and> m_prev db' = m_prev db"
proof (induction key arbitrary: db entry)
  case Nil
  then show ?case by (cases entry) auto
next
  case (Cons b key)
  show ?case
  proof (cases entry)
    case None
    with Cons.prems show ?thesis by simp
  next
    case (Some e)
    obtain i dbm where c: "child_id db e b = (i, dbm)"
      by (cases "child_id db e b")
    from Cons.prems Some c obtain entry' tr where
      rest: "find_loop (dbm \<lparr> m_trie := tr \<rparr>) entry' key alloc = Inr (r, db')"
      by (auto split: sum.splits)
    from Cons.IH[OF rest] child_id_links[OF c] show ?thesis by simp
  qed
qed

lemma find_entry_links:
  assumes "find_entry db key alloc = Inr (r, db')"
  shows "m_next db' = m_next db \<and> m_prev db' = m_prev db"
proof -
  from assms obtain entry0 tr r1 db1 where
    g: "get TrieNode_ctor (m_trie db) 0 alloc = Inr (entry0, tr)"
    and fl: "find_loop (db \<lparr> m_trie := tr \<rparr>) entry0 key alloc = Inr (r1, db1)"
    by (auto simp: find_entry_def kernel_ids_def split: sum.splits)
  from find_loop_links[OF fl] have l1: "m_next db1 = m_next db \<and> m_prev db1 = m_prev db"
    by simp
  from assms g fl have "m_next db' = m_next db1 \<and> m_prev db' = m_prev db1"
    by (auto simp: find_entry_def kernel_ids_def Let_def split: sum.splits option.splits if_splits bool.splits prod.splits)
  with l1 show ?thesis by simp
qed

lemma process_snapshot_links:
  assumes "process_snapshot st c db snapshot = Inr db'"
  shows "m_next db' = m_next db \<and> m_prev db' = m_prev db"
proof (cases "length (node_entries snapshot) + length (immediate_entries snapshot) = 0")
  case True
  with assms show ?thesis by (simp add: process_snapshot_def)
next
  case False
  with assms obtain key r db1 where
    bk: "build_key st c db snapshot = Inr key"
    and fe: "find_entry (db \<lparr> m_max_keylen := max (of_nat (length key)) (m_max_keylen db) \<rparr>)
                     key (\<not> is_signal c) = Inr (r, db1)"
    by (auto simp: process_snapshot_def split: sum.splits)
  from find_entry_links[OF fe] have l1: "m_next db1 = m_next db \<and> m_prev db1 = m_prev db"
    by simp
  from assms False bk fe have "m_next db' = m_next db1 \<and> m_prev db' = m_prev db1"
    by (auto simp: process_snapshot_def Let_def split: sum.splits option.splits)
  with l1 show ?thesis by simp
qed

lemma acquire_unref:
  assumes u: "unreferenced a g" and na: "new_address env \<noteq> a"
    and ac: "acquire st c env t alloc g = Inr (r, g')"
  shows "r \<noteq> Some a \<and> dbs g' a = dbs g a \<and> unreferenced a g'"
proof (cases "alloc \<and> db_of_thread g t = None")
  case False
  with ac have "r = db_of_thread g t" "g' = g"
    by (auto simp: acquire_def)
  with u show ?thesis by (simp add: unreferenced_def)
next
  case True
  obtain db where db: "AggregateDB_ctor st c (uninitialised_trie_blocks env)
                (uninitialised_kernel_blocks env) = Inr db" and lk: "m_next db = None" "m_prev db = None"
    using AggregateDB_ctor_Inr by blast
  define n where "n = new_address env"
  define g1 where "g1 = g \<lparr> dbs := (dbs g)(n \<mapsto> db) \<rparr>"
  have u1: "unreferenced a g1"
    unfolding g1_def using na lk by (intro unref_upd[OF u]) (simp_all add: n_def)
  have d1: "dbs g1 a = dbs g a" using na by (simp add: g1_def n_def)
  show ?thesis
  proof (cases "pthread_setspecific_ok env")
    case False
    with ac True db have "r = Some n" "g' = g1"
      by (auto simp: acquire_def Let_def g1_def n_def)
    with u1 d1 na show ?thesis by (simp add: n_def)
  next
    case ok: True
    define g2 where "g2 = g1 \<lparr> db_of_thread := (db_of_thread g1)(t \<mapsto> n) \<rparr>"
    have u2: "unreferenced a g2"
      using u1 na by (simp add: unreferenced_def g2_def n_def)
    have d2: "dbs g2 a = dbs g a" using d1 by (simp add: g2_def)
    show ?thesis
    proof (cases "s_list g2")
      case None
      with ac True db ok have "r = Some n" "g' = g2 \<lparr> s_list := Some n \<rparr>"
        by (auto simp: acquire_def Let_def g1_def g2_def n_def)
      with u2 d2 na show ?thesis by (simp add: unreferenced_def n_def)
    next
      case (Some l)
      have la: "l \<noteq> a" using u2 Some by (simp add: unreferenced_def)
      from ac True db ok Some obtain ldb db' where
        ldb: "dbs g2 l = Some ldb"
        and dbp: "dbs (g2 \<lparr> dbs := (dbs g2)(l \<mapsto> ldb \<lparr> m_prev := Some n \<rparr>) \<rparr>) n = Some db'"
        and res: "r = Some n"
          "g' = (g2 \<lparr> dbs := (dbs g2)(l \<mapsto> ldb \<lparr> m_prev := Some n \<rparr>) \<rparr>)
                  \<lparr> dbs := (dbs (g2 \<lparr> dbs := (dbs g2)(l \<mapsto> ldb \<lparr> m_prev := Some n \<rparr>) \<rparr>))
                            (n \<mapsto> db' \<lparr> m_next := Some l \<rparr>),
                     s_list := Some n \<rparr>"
        by (auto simp: acquire_def Let_def g1_def g2_def n_def split: option.splits)
      define g3 where "g3 = g2 \<lparr> dbs := (dbs g2)(l \<mapsto> ldb \<lparr> m_prev := Some n \<rparr>) \<rparr>"
      have u3: "unreferenced a g3"
        unfolding g3_def using unref_next[OF u2 ldb la] na
        by (intro unref_upd[OF u2 la]) (simp_all add: n_def)
      have dbp': "m_prev db' \<noteq> Some a"
        using dbp unref_next(2)[OF u3, of n db'] na by (simp add: g3_def n_def)
      have u4: "unreferenced a (g3 \<lparr> dbs := (dbs g3)(n \<mapsto> db' \<lparr> m_next := Some l \<rparr>) \<rparr>)"
        using na la dbp' by (intro unref_upd[OF u3]) (simp_all add: n_def)
      have "unreferenced a g'"
        using u4 na unfolding res(2) g3_def[symmetric] by (simp add: unreferenced_def n_def)
      moreover have "dbs g' a = dbs g a"
        using d2 la na by (simp add: res(2) n_def)
      ultimately show ?thesis using res(1) na by (simp add: n_def)
    qed
  qed
qed

lemma process_snapshot_cb_unref:
  assumes u: "unreferenced a g" and na: "new_address env \<noteq> a"
    and ps: "process_snapshot_cb st c env t snapshot g = Inr g'"
  shows "dbs g' a = dbs g a \<and> unreferenced a g'"
proof -
  from ps obtain r g1 where ac: "acquire st c env t (\<not> is_signal c) g = Inr (r, g1)"
    by (auto simp: process_snapshot_cb_def split: sum.splits)
  from acquire_unref[OF u na ac] have ra: "r \<noteq> Some a" and d1: "dbs g1 a = dbs g a"
    and u1: "unreferenced a g1" by simp_all
  show ?thesis
  proof (cases r)
    case None
    with ps ac have "g' = g1 \<lparr> s_global_num_dropped := s_global_num_dropped g1 + 1 \<rparr>"
      by (simp add: process_snapshot_cb_def)
    with u1 d1 show ?thesis by (simp add: unreferenced_def)
  next
    case (Some b)
    have ba: "b \<noteq> a" using ra Some by simp
    from ps ac Some obtain db where db: "dbs g1 b = Some db"
      by (auto simp: process_snapshot_cb_def split: option.splits)
    show ?thesis
    proof (cases "m_stopped db")
      case True
      with ps ac Some db have "g' = g1 \<lparr> s_global_num_dropped := s_global_num_dropped g1 + 1 \<rparr>"
        by (simp add: process_snapshot_cb_def)
      with u1 d1 show ?thesis by (simp add: unreferenced_def)
    next
      case False
      with ps ac Some db obtain db' where p: "process_snapshot st c db snapshot = Inr db'"
        and geq: "g' = g1 \<lparr> dbs := (dbs g1)(b \<mapsto> db') \<rparr>"
        by (auto simp: process_snapshot_cb_def split: sum.splits)
      from process_snapshot_links[OF p] unref_next[OF u1 db ba]
      have "m_next db' \<noteq> Some a" "m_prev db' \<noteq> Some a" by simp_all
      then have "unreferenced a g'"
        unfolding geq by (intro unref_upd[OF u1 ba])
      then show ?thesis using d1 ba by (simp add: geq)
    qed
  qed
qed

lemma recursive_flush_leaf:
  assumes "count_t (deref (m_trie db) e) = 0" and "\<And>i. next_t (deref (m_trie db) e) i = 0"
  shows "recursive_flush (Suc depth) st c db key (Some e) = Some (Inr [])"
proof -
  have "fold (\<lambda>i acc.
                  case acc of
                    None \<Rightarrow> None
                  | Some (Inl err) \<Rightarrow> Some (Inl err)
                  | Some (Inr written) \<Rightarrow>
                      if next_t (deref (m_trie db) e) i = 0 then Some (Inr written)
                      else F i written) xs (Some (Inr [])) = Some (Inr [])" for xs F
    by (induction xs) (simp_all add: assms(2))
  then show ?thesis
    using assms(1) by (simp add: Let_def)
qed

lemma flush_example_db:
  "flush (Suc depth) st c (example_db \<lparr> m_stopped := True \<rparr>) = Some (Inr [])"
proof -
  have g: "get TrieNode_ctor (m_trie (example_db \<lparr> m_stopped := True \<rparr>)) 0 False
     = Inr (Some 0, m_trie (example_db \<lparr> m_stopped := True \<rparr>))"
    by (simp add: get_def example_db_def MAX_BLOCKS_def ENTRIES_PER_BLOCK_def)
  have r: "recursive_flush (Suc depth) st c (example_db \<lparr> m_stopped := True \<rparr>) [] (Some 0) = Some (Inr [])"
    by (rule recursive_flush_leaf)
       (simp_all add: deref_def example_db_def TrieNode_ctor_def ENTRIES_PER_BLOCK_def)
  show ?thesis
    unfolding flush_def g by (simp add: r del: recursive_flush.simps)
qed

lemma flush_cb_example:
  "flush_cb 1 1 example_statics example_caliper unspliced_registry
   = Some (Inr ([0], [], unspliced_registry_flushed))"
proof -
  have f: "flushed_db example_db = clear example_db"
    by (simp add: flushed_db_def clear_def example_db_def)
  have nr: "\<not> m_retired (clear example_db)" "m_next (clear example_db) = None"
    by (simp_all add: clear_def example_db_def)
  show ?thesis
    using flush_example_db [of 0 example_statics example_caliper]
    by (simp add: flush_cb_def unspliced_registry_def example_registry_def f nr
        remove_retired_def add_statistics_def unspliced_registry_flushed_def fun_upd_twist)
      (simp add: example_db_def)
qed

lemma acquire_example:
  "acquire example_statics example_caliper example_environment 1 True example_registry
   = Inr (Some 1, unspliced_registry)"
  by (simp add: acquire_def example_environment_def
      example_registry_def unspliced_registry_def Let_def ctor_example)

lemma unreferenced_example: "unreferenced 1 unspliced_registry"
  by (auto simp: unreferenced_def unspliced_registry_def example_registry_def example_db_def
      split: if_splits)

lemma acquire_setspecific_fails:
  assumes "db_of_thread g t = None" and "\<not> pthread_setspecific_ok env"
  shows "\<exists>db. AggregateDB_ctor st c (uninitialised_trie_blocks env)
                 (uninitialised_kernel_blocks env) = Inr db \<and>
           acquire st c env t True g =
             Inr (Some (new_address env), g \<lparr> dbs := (dbs g)(new_address env \<mapsto> db) \<rparr>) \<and>
           (\<not> is_signal c \<longrightarrow>
              process_snapshot_cb st c env t snapshot g =
                (case process_snapshot st c db snapshot of
                   Inl err \<Rightarrow> Inl err
                 | Inr db' \<Rightarrow> Inr (g \<lparr> dbs := (dbs g)(new_address env \<mapsto> db') \<rparr>)))"
proof -
  obtain db where db: "AggregateDB_ctor st c (uninitialised_trie_blocks env)
                 (uninitialised_kernel_blocks env) = Inr db" and ns: "\<not> m_stopped db"
    using AggregateDB_ctor_Inr by blast
  have a: "acquire st c env t True g =
             Inr (Some (new_address env), g \<lparr> dbs := (dbs g)(new_address env \<mapsto> db) \<rparr>)"
    using assms db by (simp add: acquire_def Let_def)
  have "process_snapshot_cb st c env t snapshot g =
                (case process_snapshot st c db snapshot of
                   Inl err \<Rightarrow> Inl err
                 | Inr db' \<Rightarrow> Inr (g \<lparr> dbs := (dbs g)(new_address env \<mapsto> db') \<rparr>))"
    if "\<not> is_signal c"
    using that a ns by (simp add: process_snapshot_cb_def split: sum.splits)
  with db a show ?thesis by blast
qed

text \<open>
  C10. When \<open>pthread_setspecific\<close> fails in \<open>acquire\<close>, the database just constructed is
  returned, and \<open>process_snapshot_cb\<close> processes the snapshot with it; the registry
  changes in nothing but that the database exists: it is not in the list, and the slot of
  the thread stays empty. From then on nothing refers to it, and this stays so: a flush
  does not visit it and leaves it as it is (it is neither written nor deleted), and a
  later \<open>acquire\<close> or \<open>process_snapshot_cb\<close> of any thread (\<open>new\<close> returning another
  address, since this one is in use) does not return or change it.
\<close>

theorem unspliced_database_never_flushed:
  "(db_of_thread g t = None \<and> \<not> pthread_setspecific_ok env \<longrightarrow>
      (\<exists>db. AggregateDB_ctor st c (uninitialised_trie_blocks env)
                 (uninitialised_kernel_blocks env) = Inr db \<and>
            acquire st c env t True g =
              Inr (Some (new_address env), g \<lparr> dbs := (dbs g)(new_address env \<mapsto> db) \<rparr>) \<and>
            (\<not> is_signal c \<longrightarrow>
               process_snapshot_cb st c env t snapshot g =
                 (case process_snapshot st c db snapshot of
                    Inl err \<Rightarrow> Inl err
                  | Inr db' \<Rightarrow> Inr (g \<lparr> dbs := (dbs g)(new_address env \<mapsto> db') \<rparr>)))) \<and>
      (\<forall>db. unreferenced (new_address env) (g \<lparr> dbs := (dbs g)(new_address env \<mapsto> db) \<rparr>)
             = unreferenced (new_address env) g)) \<and>
   (unreferenced a h \<and> flush_cb n depth st c h = Some (Inr (visited, written, h')) \<longrightarrow>
      a \<notin> set visited \<and> dbs h' a = dbs h a \<and> unreferenced a h') \<and>
   (unreferenced a h \<and> new_address env' \<noteq> a \<and> acquire st c env' t' alloc h = Inr (r, h1) \<longrightarrow>
      r \<noteq> Some a \<and> dbs h1 a = dbs h a \<and> unreferenced a h1) \<and>
   (unreferenced a h \<and> new_address env' \<noteq> a \<and>
    process_snapshot_cb st c env' t' snapshot' h = Inr h2 \<longrightarrow>
      dbs h2 a = dbs h a \<and> unreferenced a h2)"
  using acquire_setspecific_fails [of g t env st c snapshot]
    unref_self [of "new_address env" g]
    flush_cb_unref [of n depth st c h visited written h' a]
    acquire_unref [of a h env' st c t' alloc r h1]
    process_snapshot_cb_unref [of a h env' st c t' snapshot' h2]
  by blast

theorem unspliced_database_never_flushed_witness:
  "db_of_thread example_registry 1 = None \<and>
   \<not> pthread_setspecific_ok example_environment \<and>
   acquire example_statics example_caliper example_environment 1 True example_registry
     = Inr (Some 1, unspliced_registry) \<and>
   unreferenced 1 unspliced_registry \<and>
   flush_cb 1 1 example_statics example_caliper unspliced_registry
     = Some (Inr ([0], [], unspliced_registry_flushed)) \<and>
   1 \<notin> set [0 :: nat] \<and>
   dbs unspliced_registry_flushed 1 = dbs unspliced_registry 1 \<and>
   unreferenced 1 unspliced_registry_flushed"
proof -
  have t: "db_of_thread example_registry 1 = None"
    by (simp add: example_registry_def)
  have f: "\<not> pthread_setspecific_ok example_environment"
    by (simp add: example_environment_def)
  from unspliced_database_never_flushed
         [where h = unspliced_registry and a = 1 and n = 1 and depth = 1
            and st = example_statics and c = example_caliper and visited = "[0]"
            and written = "[]" and h' = unspliced_registry_flushed]
    unreferenced_example flush_cb_example
  have "1 \<notin> set [0 :: nat] \<and>
        dbs unspliced_registry_flushed 1 = dbs unspliced_registry 1 \<and>
        unreferenced 1 unspliced_registry_flushed"
    by blast
  with t f acquire_example unreferenced_example flush_cb_example show ?thesis
    by blast
qed

end
